theory Spec2Isabelle
  imports Complex_Main "HOL-Library.Sublist"
begin

section \<open>Values of the client\<close>

subsection \<open>Numbers\<close>

text \<open>
  A JavaScript Number is modelled by its exact value: a rational, one of the two
  infinities, or NaN. Rounding to binary64, overflow, underflow and the sign of zero are
  not modelled; where a result could depend on rounding this is said at the definition.
\<close>

datatype jsnum = Fin rat | PInf | NInf | NaN

text \<open>\<^verbatim>\<open>Math.round\<close>: the nearest integer, ties towards plus infinity.\<close>

definition Math_round :: "rat \<Rightarrow> rat" where
  "Math_round x = of_int \<lfloor>x + 1 / 2\<rfloor>"

text \<open>\<^verbatim>\<open>a <= b\<close> on Numbers: false as soon as one side is NaN.\<close>

fun js_le :: "jsnum \<Rightarrow> jsnum \<Rightarrow> bool" where
  "js_le NaN _ = False"
| "js_le _ NaN = False"
| "js_le NInf _ = True"
| "js_le _ PInf = True"
| "js_le (Fin a) (Fin b) = (a \<le> b)"
| "js_le _ _ = False"

text \<open>\<^verbatim>\<open>a >= b\<close>.\<close>

definition js_ge :: "jsnum \<Rightarrow> jsnum \<Rightarrow> bool" where
  "js_ge a b = js_le b a"

text \<open>\<^verbatim>\<open>a - b\<close>: infinities of the same sign cancel to NaN.\<close>

fun js_sub :: "jsnum \<Rightarrow> jsnum \<Rightarrow> jsnum" where
  "js_sub NaN _ = NaN"
| "js_sub _ NaN = NaN"
| "js_sub (Fin a) (Fin b) = Fin (a - b)"
| "js_sub (Fin a) PInf = NInf"
| "js_sub (Fin a) NInf = PInf"
| "js_sub PInf PInf = NaN"
| "js_sub PInf _ = PInf"
| "js_sub NInf NInf = NaN"
| "js_sub NInf _ = NInf"

text \<open>A Number is falsy when it is zero or NaN (\<^verbatim>\<open>n || d\<close> then yields \<open>d\<close>).\<close>

definition falsy :: "jsnum \<Rightarrow> bool" where
  "falsy n = (n = NaN \<or> n = Fin 0)"

subsection \<open>Strings\<close>

text \<open>
  A string is modelled by the bytes of its UTF-8 encoding. A byte of a character beyond
  ASCII is never an ASCII digit, dot, sign or letter, so the tests on single characters
  below read the same on bytes as on UTF-16 code units.
\<close>

definition is_digit :: "char \<Rightarrow> bool" where
  "is_digit c = (c \<in> set ''0123456789'')"

definition digit_val :: "char \<Rightarrow> nat" where
  "digit_val c = of_char c - 48"

definition nat_of_digits :: "string \<Rightarrow> nat" where
  "nat_of_digits ds = foldl (\<lambda>n c. 10 * n + digit_val c) 0 ds"

text \<open>The decimal digits of a natural number, as a template literal prints an index.\<close>

fun ToString_nat :: "nat \<Rightarrow> string" where
  "ToString_nat n =
     (if n < 10 then [char_of (48 + n)]
      else ToString_nat (n div 10) @ [char_of (48 + n mod 10)])"

declare ToString_nat.simps [simp del]

text \<open>
  The characters \<^verbatim>\<open>StrWhiteSpaceChar\<close> of ECMAScript (white space and line
  terminators), each as its UTF-8 bytes.
\<close>

definition ws_seqs :: "string list" where
  "ws_seqs =
     [[CHR 0x09], [CHR 0x0A], [CHR 0x0B], [CHR 0x0C], [CHR 0x0D], [CHR 0x20],
      [CHR 0xC2, CHR 0xA0],
      [CHR 0xE1, CHR 0x9A, CHR 0x80],
      [CHR 0xE2, CHR 0x80, CHR 0x80], [CHR 0xE2, CHR 0x80, CHR 0x81],
      [CHR 0xE2, CHR 0x80, CHR 0x82], [CHR 0xE2, CHR 0x80, CHR 0x83],
      [CHR 0xE2, CHR 0x80, CHR 0x84], [CHR 0xE2, CHR 0x80, CHR 0x85],
      [CHR 0xE2, CHR 0x80, CHR 0x86], [CHR 0xE2, CHR 0x80, CHR 0x87],
      [CHR 0xE2, CHR 0x80, CHR 0x88], [CHR 0xE2, CHR 0x80, CHR 0x89],
      [CHR 0xE2, CHR 0x80, CHR 0x8A],
      [CHR 0xE2, CHR 0x80, CHR 0xA8], [CHR 0xE2, CHR 0x80, CHR 0xA9],
      [CHR 0xE2, CHR 0x80, CHR 0xAF],
      [CHR 0xE2, CHR 0x81, CHR 0x9F],
      [CHR 0xE3, CHR 0x80, CHR 0x80],
      [CHR 0xEF, CHR 0xBB, CHR 0xBF]]"

function drop_ws :: "string list \<Rightarrow> string \<Rightarrow> string" where
  "drop_ws seqs s =
     (case find (\<lambda>w. w \<noteq> [] \<and> prefix w s) seqs of
        None \<Rightarrow> s
      | Some w \<Rightarrow> drop_ws seqs (drop (length w) s))"
  by pat_completeness auto
termination
proof (relation "measure (\<lambda>(seqs, s). length s)")
  show "wf (measure (\<lambda>(seqs, s). length s))" by simp
next
  fix seqs :: "string list" and s w :: string
  assume "find (\<lambda>w. w \<noteq> [] \<and> prefix w s) seqs = Some w"
  then have "w \<noteq> []" and "prefix w s" by (auto simp: find_Some_iff)
  then have "s \<noteq> []" by auto
  with \<open>w \<noteq> []\<close> show "((seqs, drop (length w) s), (seqs, s)) \<in> measure (\<lambda>(seqs, s). length s)"
    by simp
qed

declare drop_ws.simps [simp del]

definition trim :: "string \<Rightarrow> string" where
  "trim s = rev (drop_ws (map rev ws_seqs) (rev (drop_ws ws_seqs s)))"

subsection \<open>\<^verbatim>\<open>Number(string)\<close>: the grammar \<^verbatim>\<open>StringNumericLiteral\<close>\<close>

text \<open>\<^verbatim>\<open>DecimalDigits . DecimalDigits?\<close>, \<^verbatim>\<open>. DecimalDigits\<close> or \<^verbatim>\<open>DecimalDigits\<close>.\<close>

definition decimal_mantissa :: "string \<Rightarrow> rat option" where
  "decimal_mantissa m =
     (let ip = takeWhile is_digit m; r = dropWhile is_digit m in
      case r of
        [] \<Rightarrow> (if ip = [] then None else Some (of_nat (nat_of_digits ip)))
      | c # fp \<Rightarrow>
          (if c = CHR ''.'' \<and> list_all is_digit fp \<and> (ip \<noteq> [] \<or> fp \<noteq> [])
           then Some (of_nat (nat_of_digits ip) + of_nat (nat_of_digits fp) / 10 ^ length fp)
           else None))"

text \<open>\<^verbatim>\<open>ExponentPart?\<close>: nothing, or \<^verbatim>\<open>e\<close> with an optionally signed integer.\<close>

definition exponent_part :: "string \<Rightarrow> int option" where
  "exponent_part r =
     (case r of
        [] \<Rightarrow> Some 0
      | e # ds \<Rightarrow>
          (let (neg, ds') =
                 (case ds of
                    [] \<Rightarrow> (False, [])
                  | c # cs \<Rightarrow> if c = CHR ''-'' then (True, cs)
                             else if c = CHR ''+'' then (False, cs) else (False, ds))
           in if ds' \<noteq> [] \<and> list_all is_digit ds'
              then Some (if neg then - int (nat_of_digits ds') else int (nat_of_digits ds'))
              else None))"

definition scale10 :: "rat \<Rightarrow> int \<Rightarrow> rat" where
  "scale10 q e = (if 0 \<le> e then q * 10 ^ nat e else q / 10 ^ nat (- e))"

definition is_exp_char :: "char \<Rightarrow> bool" where
  "is_exp_char c = (c = CHR ''e'' \<or> c = CHR ''E'')"

definition StrUnsignedDecimalLiteral :: "string \<Rightarrow> jsnum" where
  "StrUnsignedDecimalLiteral u =
     (if u = ''Infinity'' then PInf
      else case (decimal_mantissa (takeWhile (\<lambda>c. \<not> is_exp_char c) u),
                 exponent_part (dropWhile (\<lambda>c. \<not> is_exp_char c) u)) of
             (Some q, Some e) \<Rightarrow> Fin (scale10 q e)
           | _ \<Rightarrow> NaN)"

definition negate :: "jsnum \<Rightarrow> jsnum" where
  "negate n = (case n of Fin q \<Rightarrow> Fin (- q) | PInf \<Rightarrow> NInf | NInf \<Rightarrow> PInf | NaN \<Rightarrow> NaN)"

definition StrDecimalLiteral :: "string \<Rightarrow> jsnum" where
  "StrDecimalLiteral t =
     (case t of
        [] \<Rightarrow> NaN
      | c # u \<Rightarrow> if c = CHR ''+'' then StrUnsignedDecimalLiteral u
                 else if c = CHR ''-'' then negate (StrUnsignedDecimalLiteral u)
                 else StrUnsignedDecimalLiteral t)"

definition radix_digit :: "char \<Rightarrow> nat option" where
  "radix_digit c =
     (if is_digit c then Some (digit_val c)
      else if c \<in> set ''abcdef'' then Some (of_char c - 87)
      else if c \<in> set ''ABCDEF'' then Some (of_char c - 55)
      else None)"

text \<open>The digits after \<^verbatim>\<open>0x\<close>, \<^verbatim>\<open>0o\<close> or \<^verbatim>\<open>0b\<close>.\<close>

definition radix_value :: "nat \<Rightarrow> string \<Rightarrow> jsnum" where
  "radix_value b ds =
     (if ds \<noteq> [] \<and> list_all (\<lambda>c. case radix_digit c of Some d \<Rightarrow> d < b | None \<Rightarrow> False) ds
      then Fin (of_nat (foldl (\<lambda>n c. b * n + (case radix_digit c of Some d \<Rightarrow> d | None \<Rightarrow> 0)) 0 ds))
      else NaN)"

text \<open>
  \<^verbatim>\<open>StringToNumber\<close>. The result is the exact value of the literal: the engine rounds
  it to binary64, so that a literal beyond the range reads as an infinity and one
  below it as zero. The theorems on the normalizer are stated relative to this
  function and evaluate it only at literals that binary64 holds exactly.
\<close>

definition StringToNumber :: "string \<Rightarrow> jsnum" where
  "StringToNumber s =
     (let t = trim s in
      case t of
        [] \<Rightarrow> Fin 0
      | [c] \<Rightarrow> StrDecimalLiteral t
      | c # d # ds \<Rightarrow>
          if c = CHR ''0'' \<and> (d = CHR ''x'' \<or> d = CHR ''X'') then radix_value 16 ds
          else if c = CHR ''0'' \<and> (d = CHR ''o'' \<or> d = CHR ''O'') then radix_value 8 ds
          else if c = CHR ''0'' \<and> (d = CHR ''b'' \<or> d = CHR ''B'') then radix_value 2 ds
          else StrDecimalLiteral t)"

subsection \<open>JSON values and their coercions\<close>

text \<open>
  A value as \<^verbatim>\<open>res.json()\<close> delivers it. An object holds its own properties, each
  name once; every object and array still inherits from \<^verbatim>\<open>Object.prototype\<close> and
  \<^verbatim>\<open>Array.prototype\<close>. JSON has no literal for NaN: a parsed Number is finite or,
  where the literal is too large, infinite.
\<close>

datatype json =
    JNull
  | JBool bool
  | JNum jsnum
  | JStr string
  | JArr "json list"
  | JObj "(string \<times> json) list"

text \<open>
  \<^verbatim>\<open>p?.name\<close> for the property names the client reads (none of them is a property of
  a prototype): the own property of an object, \<^verbatim>\<open>undefined\<close> (\<open>None\<close>) on
  \<^verbatim>\<open>null\<close> and on every other value.
\<close>

definition get :: "json \<Rightarrow> string \<Rightarrow> json option" where
  "get p name = (case p of JObj kvs \<Rightarrow> map_of kvs name | _ \<Rightarrow> None)"

text \<open>The first operand of a \<^verbatim>\<open>??\<close> chain that is neither undefined nor null.\<close>

fun first_present :: "json option list \<Rightarrow> json option" where
  "first_present [] = None"
| "first_present (None # vs) = first_present vs"
| "first_present (Some v # vs) = (if v = JNull then first_present vs else Some v)"

text \<open>\<^verbatim>\<open>v1 ?? v2 ?? ... ?? d\<close> with a default that needs no evaluation.\<close>

definition coalesce :: "json option list \<Rightarrow> json \<Rightarrow> json" where
  "coalesce vs d = (case first_present vs of Some v \<Rightarrow> v | None \<Rightarrow> d)"

datatype exn = Error string | TypeError string

fun message :: "exn \<Rightarrow> string" where
  "message (Error m) = m"
| "message (TypeError m) = m"

text \<open>
  \<^verbatim>\<open>ToPrimitive\<close> on a parsed value. \<^verbatim>\<open>OrdinaryToPrimitive\<close> calls
  \<^verbatim>\<open>valueOf\<close> and \<^verbatim>\<open>toString\<close> where they are callable. On an object,
  \<^verbatim>\<open>Object.prototype.valueOf\<close> returns the object itself, so the conversion rests on
  \<^verbatim>\<open>toString\<close>; an own property \<^verbatim>\<open>toString\<close> of a parsed object is never
  callable and hides the inherited one: the conversion throws a TypeError. An array is
  converted by \<^verbatim>\<open>join\<close>, which converts each element other than null to a
  string, so it throws when an element does.
\<close>

fun ToPrimitive_throws :: "json \<Rightarrow> bool" where
  "ToPrimitive_throws (JObj kvs) = (''toString'' \<in> fst ` set kvs)"
| "ToPrimitive_throws (JArr xs) = (\<exists>x \<in> set xs. ToPrimitive_throws x)"
| "ToPrimitive_throws _ = False"

definition cannot_convert :: exn where
  "cannot_convert = TypeError ''Cannot convert object to primitive value''"

text \<open>
  \<^verbatim>\<open>Number(v)\<close> where the conversion to a primitive does not throw. An object becomes
  \<^verbatim>\<open>"[object Object]"\<close>, which is no numeric literal. An array becomes the join of its
  elements with commas: the empty string for no element, a string with a comma (no
  numeric literal) for two or more, and for one element that element's string, where
  null gives the empty string, a boolean \<^verbatim>\<open>"true"\<close> or \<^verbatim>\<open>"false"\<close>, and a Number
  its own literal, which reads back as the same Number.
\<close>

fun number_of :: "json \<Rightarrow> jsnum" where
  "number_of JNull = Fin 0"
| "number_of (JBool b) = Fin (if b then 1 else 0)"
| "number_of (JNum n) = n"
| "number_of (JStr s) = StringToNumber s"
| "number_of (JObj kvs) = NaN"
| "number_of (JArr []) = Fin 0"
| "number_of (JArr [x]) = (case x of JBool b \<Rightarrow> NaN | _ \<Rightarrow> number_of x)"
| "number_of (JArr (x # y # zs)) = NaN"

definition ToNumber :: "json \<Rightarrow> exn + jsnum" where
  "ToNumber v = (if ToPrimitive_throws v then Inl cannot_convert else Inr (number_of v))"

text \<open>
  \<^verbatim>\<open>String(v)\<close>, as \<^verbatim>\<open>new Error(v)\<close> builds its message. The printing of a Number
  (\<^verbatim>\<open>Number::toString\<close>) is a parameter.
\<close>

fun string_of :: "(jsnum \<Rightarrow> string) \<Rightarrow> json \<Rightarrow> string" where
  "string_of nts JNull = ''null''"
| "string_of nts (JBool b) = (if b then ''true'' else ''false'')"
| "string_of nts (JNum n) = nts n"
| "string_of nts (JStr s) = s"
| "string_of nts (JObj kvs) = ''[object Object]''"
| "string_of nts (JArr []) = ''''"
| "string_of nts (JArr [x]) = (if x = JNull then '''' else string_of nts x)"
| "string_of nts (JArr (x # y # zs)) =
     (if x = JNull then '''' else string_of nts x) @ '','' @ string_of nts (JArr (y # zs))"

definition ToString :: "(jsnum \<Rightarrow> string) \<Rightarrow> json \<Rightarrow> exn + string" where
  "ToString nts v = (if ToPrimitive_throws v then Inl cannot_convert else Inr (string_of nts v))"

section \<open>Response Normalizer (App.jsx, fetchRecommendations)\<close>

record product =
  asin :: json
  title :: json
  score :: jsnum
  reviews :: jsnum
  price :: "jsnum option"
  image :: json
  raw :: json

text \<open>\<^verbatim>\<open>price.replace(/[^\d.]/g, "")\<close>.\<close>

definition strip_non_numeric :: "string \<Rightarrow> string" where
  "strip_non_numeric s = filter (\<lambda>c. is_digit c \<or> c = CHR ''.'') s"

text \<open>
  \<open>parsedPrice\<close> of the source, from the coalesced \<open>price\<close> (\<open>JNull\<close> for null). The
  guard \<^verbatim>\<open>price && typeof price === "string"\<close> holds for a non-empty string, and
  \<^verbatim>\<open>Number(...) || null\<close> is null for a falsy Number. \<open>None\<close> is the null price.
\<close>

definition parsedPrice :: "json \<Rightarrow> jsnum option" where
  "parsedPrice pr =
     (case pr of
        JNum n \<Rightarrow> Some n
      | JStr s \<Rightarrow>
          (if s \<noteq> [] then
             (let n = StringToNumber (strip_non_numeric s) in if falsy n then None else Some n)
           else None)
      | _ \<Rightarrow> None)"

text \<open>\<^verbatim>\<open>Number(v) || 0\<close>.\<close>

definition Number_or_0 :: "json \<Rightarrow> exn + jsnum" where
  "Number_or_0 v =
     (case ToNumber v of Inl e \<Rightarrow> Inl e | Inr n \<Rightarrow> Inr (if falsy n then Fin 0 else n))"

text \<open>
  The operand of \<^verbatim>\<open>Number\<close> for the review count. \<^verbatim>\<open>Math.random()\<close> is called only
  when both fields are missing: \<open>rnd\<close> is the sequence of values the generator returns
  and \<open>k\<close> the number of calls made so far.
\<close>

definition reviews_operand :: "(nat \<Rightarrow> rat) \<Rightarrow> nat \<Rightarrow> json \<Rightarrow> json \<times> nat" where
  "reviews_operand rnd k p =
     (case first_present [get p ''reviews'', get p ''review_count''] of
        Some v \<Rightarrow> (v, k)
      | None \<Rightarrow> (JNum (Fin (Math_round (rnd k * 2000))), Suc k))"

text \<open>The callback of \<^verbatim>\<open>arr.map\<close>, for the element \<open>p\<close> at index \<open>idx\<close>.\<close>

definition normalize_elem :: "(nat \<Rightarrow> rat) \<Rightarrow> nat \<Rightarrow> nat \<Rightarrow> json \<Rightarrow> exn + product \<times> nat" where
  "normalize_elem rnd k idx p =
     (let pr = coalesce [get p ''price'', get p ''price_value'', get p ''pricing''] JNull;
          price' = parsedPrice pr
      in case Number_or_0 (coalesce [get p ''score'', get p ''similarity''] (JNum (Fin 0))) of
           Inl e \<Rightarrow> Inl e
         | Inr sc \<Rightarrow>
             (let (rv, k') = reviews_operand rnd k p
              in case Number_or_0 rv of
                   Inl e \<Rightarrow> Inl e
                 | Inr rc \<Rightarrow>
                     Inr (\<lparr>asin = coalesce [get p ''asin'', get p ''ASIN'']
                                    (JStr (''ASINFALLBACK'' @ ToString_nat idx)),
                           title = coalesce [get p ''title'', get p ''name'', get p ''summary'']
                                     (JStr ''Untitled product''),
                           score = sc,
                           reviews = rc,
                           price = price',
                           image = coalesce [get p ''image''] JNull,
                           raw = p\<rparr>, k')))"

text \<open>\<^verbatim>\<open>arr.map\<close> from index \<open>idx\<close> on: the first exception ends the loop.\<close>

fun normalize_from :: "(nat \<Rightarrow> rat) \<Rightarrow> nat \<Rightarrow> nat \<Rightarrow> json list \<Rightarrow> exn + product list" where
  "normalize_from rnd k idx [] = Inr []"
| "normalize_from rnd k idx (p # ps) =
     (case normalize_elem rnd k idx p of
        Inl e \<Rightarrow> Inl e
      | Inr (x, k') \<Rightarrow>
          (case normalize_from rnd k' (Suc idx) ps of
             Inl e \<Rightarrow> Inl e
           | Inr xs \<Rightarrow> Inr (x # xs)))"

text \<open>\<^verbatim>\<open>Array.isArray(json) ? json : []\<close>.\<close>

definition ensure_array :: "json \<Rightarrow> json list" where
  "ensure_array j = (case j of JArr xs \<Rightarrow> xs | _ \<Rightarrow> [])"

definition normalized :: "(nat \<Rightarrow> rat) \<Rightarrow> json \<Rightarrow> exn + product list" where
  "normalized rnd j = normalize_from rnd 0 0 (ensure_array j)"

section \<open>Filter and sort (App.jsx, fetchRecommendations)\<close>

text \<open>The callback of \<^verbatim>\<open>normalized.filter\<close>.\<close>

definition in_window :: "rat \<times> rat \<Rightarrow> product \<Rightarrow> bool" where
  "in_window priceRange x =
     (let (minP, maxP) = priceRange in
      case price x of
        Some n \<Rightarrow> if n \<noteq> NaN then js_ge n (Fin minP) \<and> js_le n (Fin maxP) else True
      | None \<Rightarrow> True)"

definition filtered :: "rat \<times> rat \<Rightarrow> product list \<Rightarrow> product list" where
  "filtered priceRange xs = filter (in_window priceRange) xs"

text \<open>The comparator passed to \<^verbatim>\<open>filtered.sort\<close>.\<close>

definition compare_by :: "string \<Rightarrow> product \<Rightarrow> product \<Rightarrow> jsnum" where
  "compare_by sortBy a b =
     (if sortBy = ''price'' then
        (case price a of
           None \<Rightarrow> Fin 1
         | Some pa \<Rightarrow> (case price b of None \<Rightarrow> Fin (- 1) | Some pb \<Rightarrow> js_sub pa pb))
      else if sortBy = ''reviews'' then js_sub (reviews b) (reviews a)
      else js_sub (score b) (score a))"

text \<open>
  \<^verbatim>\<open>Array.prototype.sort\<close>. ECMAScript asks for a stable sort where the comparator is
  consistent and leaves the order to the implementation where it is not. The model
  follows V8, the engine of Chrome and Node: its sort consults the comparator only
  through the test \<^verbatim>\<open>comparefn(b, a) < 0\<close> for an element \<open>b\<close> that stands after \<open>a\<close>,
  and puts \<open>b\<close> in front of \<open>a\<close> on a negative answer; a NaN result counts as zero.
  The model is the insertion sort of this test: each element in turn moves left past
  every neighbour \<open>x\<close> with \<^verbatim>\<open>comparefn(element, x) < 0\<close>.
\<close>

definition negative :: "jsnum \<Rightarrow> bool" where
  "negative v = (case v of Fin q \<Rightarrow> q < 0 | NInf \<Rightarrow> True | _ \<Rightarrow> False)"

text \<open>The inner loop, on the sorted part in reverse (nearest neighbour first).\<close>

fun sift :: "('a \<Rightarrow> 'a \<Rightarrow> jsnum) \<Rightarrow> 'a \<Rightarrow> 'a list \<Rightarrow> 'a list" where
  "sift comparefn item [] = [item]"
| "sift comparefn item (x # xs) =
     (if negative (comparefn item x) then x # sift comparefn item xs else item # x # xs)"

definition Array_sort :: "('a \<Rightarrow> 'a \<Rightarrow> jsnum) \<Rightarrow> 'a list \<Rightarrow> 'a list" where
  "Array_sort comparefn xs = rev (foldl (\<lambda>acc item. sift comparefn item acc) [] xs)"

definition sorted_by :: "string \<Rightarrow> product list \<Rightarrow> product list" where
  "sorted_by sortBy xs = Array_sort (compare_by sortBy) xs"

section \<open>Price-Range Mapper (App.jsx, the priceRange effect)\<close>

definition maxPrice :: rat where
  "maxPrice = 100000"

definition priceRange_of :: "rat \<Rightarrow> rat \<times> rat" where
  "priceRange_of priceImportance =
     (let center = Math_round ((1 - priceImportance / 100) * (maxPrice * (6 / 10)) + (maxPrice * (2 / 10)));
          span = Math_round ((1 - priceImportance / 100) * (maxPrice * (4 / 10)) + 500);
          mn = max 0 (Math_round (center - span / 2));
          mx = min maxPrice (Math_round (center + span / 2))
      in (mn, mx))"

text \<open>
  The same effect with the two inexact intermediate values disturbed by \<open>e1\<close> and
  \<open>e2\<close>: in binary64 the arguments of the first two \<^verbatim>\<open>Math.round\<close> calls carry a
  rounding error (far below one half); everything after them is exact on integers and
  half-integers of this size.
\<close>

definition priceRange_disturbed :: "rat \<Rightarrow> rat \<Rightarrow> rat \<Rightarrow> rat \<times> rat" where
  "priceRange_disturbed e1 e2 priceImportance =
     (let center = Math_round ((1 - priceImportance / 100) * (maxPrice * (6 / 10)) + (maxPrice * (2 / 10)) + e1);
          span = Math_round ((1 - priceImportance / 100) * (maxPrice * (4 / 10)) + 500 + e2);
          mn = max 0 (Math_round (center - span / 2));
          mx = min maxPrice (Math_round (center + span / 2))
      in (mn, mx))"

text \<open>The formula of the specification (section 4.2), written from its words.\<close>

definition spec_center :: "rat \<Rightarrow> rat" where
  "spec_center importance =
     Math_round ((1 - importance / 100) * (6 / 10) * 100000 + (2 / 10) * 100000)"

definition spec_span :: "rat \<Rightarrow> rat" where
  "spec_span importance =
     Math_round ((1 - importance / 100) * (4 / 10) * 100000 + 500)"

definition spec_window :: "rat \<Rightarrow> rat \<times> rat" where
  "spec_window importance =
     (max 0 (Math_round (spec_center importance - spec_span importance / 2)),
      min 100000 (Math_round (spec_center importance + spec_span importance / 2)))"

section \<open>Pagination (App.jsx, pagination helpers and pager buttons)\<close>

definition PAGE_SIZE :: int where
  "PAGE_SIZE = 12"

text \<open>\<^verbatim>\<open>Math.max(1, Math.ceil(products.length / PAGE_SIZE))\<close>.\<close>

definition totalPages :: "'a list \<Rightarrow> int" where
  "totalPages xs = max 1 \<lceil>(of_nat (length xs) :: rat) / of_int PAGE_SIZE\<rceil>"

text \<open>
  \<^verbatim>\<open>Array.prototype.slice(start, end)\<close> on integers: a negative index counts from the
  end, and both are clamped to the array.
\<close>

definition slice :: "'a list \<Rightarrow> int \<Rightarrow> int \<Rightarrow> 'a list" where
  "slice xs start end' =
     (let len = int (length xs);
          k = (if start < 0 then max (len + start) 0 else min start len);
          final = (if end' < 0 then max (len + end') 0 else min end' len)
      in take (nat (final - k)) (drop (nat k) xs))"

definition shown :: "'a list \<Rightarrow> int \<Rightarrow> 'a list" where
  "shown xs pg = slice xs ((pg - 1) * PAGE_SIZE) (pg * PAGE_SIZE)"

text \<open>The updaters of the Prev and Next buttons.\<close>

definition prev_page :: "int \<Rightarrow> int" where
  "prev_page p = max 1 (p - 1)"

definition next_page :: "'a list \<Rightarrow> int \<Rightarrow> int" where
  "next_page xs p = min (totalPages xs) (p + 1)"

section \<open>State and workflows (App.jsx)\<close>

record trust_state =
  trust_asin :: json
  trust_loading :: bool
  trust_data :: json

record app_state =
  prompt :: string
  debouncedPrompt :: string
  priceImportance :: rat
  priceRange :: "rat \<times> rat"
  sortBy :: string
  page :: int
  products :: "product list"
  loading :: bool
  trustFor :: "trust_state option"
  error :: "string option"

text \<open>The state of the first render.\<close>

definition initial_state :: app_state where
  "initial_state =
     \<lparr>prompt = ''laptop'', debouncedPrompt = ''laptop'', priceImportance = 30,
      priceRange = (0, 20000), sortBy = ''score'', page = 1, products = [],
      loading = False, trustFor = None, error = None\<rparr>"

text \<open>
  What a workflow does besides assigning state: a call of \<^verbatim>\<open>sendLog\<close> (level and
  message), a request (method and path), a line on the console, an \<^verbatim>\<open>alert\<close>.
\<close>

datatype effect =
    SendLog string string
  | Request string string
  | Console string
  | Alert string

text \<open>
  A response: \<open>text_result\<close> is what \<^verbatim>\<open>res.text()\<close> resolves to and \<open>json_result\<close>
  what \<^verbatim>\<open>res.json()\<close> resolves to (the parse of the body), \<open>None\<close> where the promise
  rejects.
\<close>

record response =
  ok :: bool
  status :: nat
  text_result :: "string option"
  json_result :: "json option"

text \<open>
  The outcome of the request of a workflow: an exception before any response (the
  \<^verbatim>\<open>fetch\<close> promise rejects, or building the URL throws), or a response.
\<close>

datatype outcome = Rejected exn | Resolved response

text \<open>\<^verbatim>\<open>await res.text().catch(() => "")\<close>.\<close>

definition text_or_empty :: "response \<Rightarrow> string" where
  "text_or_empty res = (case text_result res of Some t \<Rightarrow> t | None \<Rightarrow> '''')"

text \<open>\<^verbatim>\<open>new Error(text || `Bad response: ${res.status}`)\<close>.\<close>

definition bad_response :: "response \<Rightarrow> exn" where
  "bad_response res =
     Error (if text_or_empty res \<noteq> '''' then text_or_empty res
            else ''Bad response: '' @ ToString_nat (status res))"

subsection \<open>fetchRecommendations\<close>

text \<open>Up to the first \<^verbatim>\<open>await\<close>.\<close>

definition fetchRecommendations_start :: "app_state \<Rightarrow> app_state \<times> effect list" where
  "fetchRecommendations_start st =
     (st\<lparr>loading := True, error := None\<rparr>,
      [SendLog ''info'' ''fetchRecommendations:start'', Request ''GET'' ''/api/recommend''])"

text \<open>
  The body of the \<^verbatim>\<open>try\<close> block after the request: the list handed to
  \<^verbatim>\<open>setProducts\<close>, or the exception thrown. \<open>cap\<close> is the state the callback closed
  over (its \<open>priceRange\<close> and \<open>sortBy\<close>).
\<close>

definition recommend_try :: "app_state \<Rightarrow> (nat \<Rightarrow> rat) \<Rightarrow> outcome \<Rightarrow> exn + product list" where
  "recommend_try cap rnd out =
     (case out of
        Rejected e \<Rightarrow> Inl e
      | Resolved res \<Rightarrow>
          if \<not> ok res then Inl (bad_response res)
          else (case json_result res of
                  None \<Rightarrow> Inl (Error ''Invalid JSON returned from /api/recommend'')
                | Some j \<Rightarrow>
                    (case normalized rnd j of
                       Inl e \<Rightarrow> Inl e
                     | Inr xs \<Rightarrow> Inr (sorted_by (sortBy cap) (filtered (priceRange cap) xs)))))"

text \<open>
  From the settled request to the end of \<^verbatim>\<open>finally\<close>, on the state \<open>st\<close> current
  at that moment.
\<close>

definition fetchRecommendations_finish ::
  "app_state \<Rightarrow> (nat \<Rightarrow> rat) \<Rightarrow> outcome \<Rightarrow> app_state \<Rightarrow> app_state \<times> effect list" where
  "fetchRecommendations_finish cap rnd out st =
     (case recommend_try cap rnd out of
        Inr xs \<Rightarrow>
          (st\<lparr>products := xs, page := 1, loading := False\<rparr>,
           [SendLog ''success'' ''fetchRecommendations:done'', Console ''[RECS]''])
      | Inl e \<Rightarrow>
          (st\<lparr>error := Some (if message e \<noteq> '''' then message e
                               else ''Failed to load recommendations''),
               products := [], loading := False\<rparr>,
           [Console ''[RECS ERROR]'', SendLog ''error'' ''fetchRecommendations:error'']))"

subsection \<open>handleTrust\<close>

definition handleTrust_start :: "json \<Rightarrow> app_state \<Rightarrow> app_state \<times> effect list" where
  "handleTrust_start a st =
     (st\<lparr>trustFor := Some \<lparr>trust_asin = a, trust_loading = True, trust_data = JNull\<rparr>\<rparr>,
      [SendLog ''info'' ''trust:request'', Request ''GET'' ''/api/trust/''])"

definition trust_try :: "outcome \<Rightarrow> exn + json" where
  "trust_try out =
     (case out of
        Rejected e \<Rightarrow> Inl e
      | Resolved res \<Rightarrow>
          if \<not> ok res then Inl (bad_response res)
          else (case json_result res of
                  Some j \<Rightarrow> Inr j
                | None \<Rightarrow> Inr (JObj [(''error'', JStr ''Invalid JSON from /api/trust'')])))"

definition handleTrust_finish :: "json \<Rightarrow> outcome \<Rightarrow> app_state \<Rightarrow> app_state \<times> effect list" where
  "handleTrust_finish a out st =
     (case trust_try out of
        Inr j \<Rightarrow>
          (st\<lparr>trustFor := Some \<lparr>trust_asin = a, trust_loading = False, trust_data = j\<rparr>\<rparr>,
           [SendLog ''success'' ''trust:loaded'', Console ''[TRUST DATA]''])
      | Inl e \<Rightarrow>
          (st\<lparr>trustFor := Some \<lparr>trust_asin = a, trust_loading = False,
                                 trust_data = JObj [(''error'', JStr (message e))]\<rparr>\<rparr>,
           [Console ''[TRUST ERROR]'', SendLog ''error'' ''trust:error'']))"

text \<open>\<^verbatim>\<open>onClose\<close> of the trust modal.\<close>

definition trust_close :: "app_state \<Rightarrow> app_state" where
  "trust_close st = st\<lparr>trustFor := None\<rparr>"

subsection \<open>handleGenerateBundle\<close>

text \<open>
  The exception of a response that is not ok: \<open>parsed\<close> is the parse of \<open>text\<close> or
  null, and \<^verbatim>\<open>parsed?.detail ?? parsed?.error ?? text\<close> becomes the message (the last
  operand of the source, \<^verbatim>\<open>`HTTP ${res.status}`\<close>, is never reached: \<open>text\<close> is a
  string).
\<close>

definition bundle_failure :: "(jsnum \<Rightarrow> string) \<Rightarrow> response \<Rightarrow> exn" where
  "bundle_failure nts res =
     (let text = text_or_empty res;
          parsed = (case text_result res of
                      None \<Rightarrow> JNull
                    | Some t \<Rightarrow> (case json_result res of Some j \<Rightarrow> j | None \<Rightarrow> JNull));
          detail = coalesce [get parsed ''detail'', get parsed ''error''] (JStr text)
      in case ToString nts detail of Inl e \<Rightarrow> e | Inr m \<Rightarrow> Error m)"

definition bundle_try :: "(jsnum \<Rightarrow> string) \<Rightarrow> outcome \<Rightarrow> exn + json" where
  "bundle_try nts out =
     (case out of
        Rejected e \<Rightarrow> Inl e
      | Resolved res \<Rightarrow>
          if \<not> ok res then Inl (bundle_failure nts res)
          else (case json_result res of
                  None \<Rightarrow> Inl (Error ''Invalid JSON from /api/generate_bundle'')
                | Some j \<Rightarrow> Inr j))"

definition handleGenerateBundle ::
  "(jsnum \<Rightarrow> string) \<Rightarrow> outcome \<Rightarrow> app_state \<Rightarrow> app_state \<times> effect list" where
  "handleGenerateBundle nts out st =
     (st,
      [SendLog ''info'' ''bundle:request'', Request ''POST'' ''/api/generate_bundle''] @
      (case bundle_try nts out of
         Inr j \<Rightarrow>
           [SendLog ''success'' ''bundle:done'', Console ''[BUNDLE]'',
            Alert ''Bundle generated (check console / backend).'']
       | Inl e \<Rightarrow>
           [SendLog ''error'' ''bundle:error'', Alert (''Bundle failed: '' @ message e)]))"

subsection \<open>Events of the event loop\<close>

text \<open>
  All code runs on one thread: between two \<^verbatim>\<open>await\<close>s a handler runs alone, and
  the handlers of other events run while a request is pending. A run of the client is a
  sequence of these events; the completion of a request is an event of its own, which
  carries what the workflow keeps from its start (the closed-over state, the asin).
\<close>

datatype event =
    RecommendStart
  | RecommendFinish app_state "nat \<Rightarrow> rat" outcome
  | TrustStart json
  | TrustFinish json outcome
  | TrustClose
  | GenerateBundle "jsnum \<Rightarrow> string" outcome
  | Prev
  | Next

definition step :: "app_state \<Rightarrow> event \<Rightarrow> app_state" where
  "step st ev =
     (case ev of
        RecommendStart \<Rightarrow> fst (fetchRecommendations_start st)
      | RecommendFinish cap rnd out \<Rightarrow> fst (fetchRecommendations_finish cap rnd out st)
      | TrustStart a \<Rightarrow> fst (handleTrust_start a st)
      | TrustFinish a out \<Rightarrow> fst (handleTrust_finish a out st)
      | TrustClose \<Rightarrow> trust_close st
      | GenerateBundle nts out \<Rightarrow> fst (handleGenerateBundle nts out st)
      | Prev \<Rightarrow> st\<lparr>page := prev_page (page st)\<rparr>
      | Next \<Rightarrow> st\<lparr>page := next_page (products st) (page st)\<rparr>)"

definition run :: "app_state \<Rightarrow> event list \<Rightarrow> app_state" where
  "run st evs = foldl step st evs"

section \<open>Notions used to state the properties\<close>

text \<open>The characters that \<open>strip_non_numeric\<close> keeps.\<close>

definition numeric_char :: "char \<Rightarrow> bool" where
  "numeric_char c = (is_digit c \<or> c = CHR ''.'')"

text \<open>None of the listed properties of \<open>p\<close> holds a value other than null.\<close>

definition missing :: "json \<Rightarrow> string list \<Rightarrow> bool" where
  "missing p names = (first_present (map (get p) names) = None)"

text \<open>
  Neither operand that the normalizer hands to \<^verbatim>\<open>Number\<close> for the element \<open>p\<close>
  throws on its conversion to a primitive.
\<close>

definition convertible_elem :: "json \<Rightarrow> bool" where
  "convertible_elem p =
     (\<not> ToPrimitive_throws (coalesce [get p ''score'', get p ''similarity''] (JNum (Fin 0)))
      \<and> (case first_present [get p ''reviews'', get p ''review_count''] of
           Some v \<Rightarrow> \<not> ToPrimitive_throws v
         | None \<Rightarrow> True))"

text \<open>\<^verbatim>\<open>n || 0\<close> on a Number.\<close>

definition or_0 :: "jsnum \<Rightarrow> jsnum" where
  "or_0 n = (if falsy n then Fin 0 else n)"

text \<open>The number of calls of \<^verbatim>\<open>Math.random\<close> made for the first \<open>i\<close> elements.\<close>

definition draws_before :: "json list \<Rightarrow> nat \<Rightarrow> nat" where
  "draws_before ps i = length (filter (\<lambda>p. missing p [''reviews'', ''review_count'']) (take i ps))"

text \<open>
  The Product that the callback of \<^verbatim>\<open>map\<close> builds from the element \<open>p\<close> at index
  \<open>idx\<close> after \<open>k\<close> calls of \<^verbatim>\<open>Math.random\<close>, where no conversion throws.
\<close>

definition product_of :: "(nat \<Rightarrow> rat) \<Rightarrow> nat \<Rightarrow> nat \<Rightarrow> json \<Rightarrow> product" where
  "product_of rnd k idx p =
     \<lparr>asin = coalesce [get p ''asin'', get p ''ASIN''] (JStr (''ASINFALLBACK'' @ ToString_nat idx)),
      title = coalesce [get p ''title'', get p ''name'', get p ''summary''] (JStr ''Untitled product''),
      score = or_0 (number_of (coalesce [get p ''score'', get p ''similarity''] (JNum (Fin 0)))),
      reviews = or_0 (number_of (fst (reviews_operand rnd k p))),
      price = parsedPrice (coalesce [get p ''price'', get p ''price_value'', get p ''pricing''] JNull),
      image = coalesce [get p ''image''] JNull,
      raw = p\<rparr>"


text \<open>
  The order that \<^verbatim>\<open>"price"\<close> asks for: known prices ascending, and no Product without
  price before one with a price.
\<close>

definition price_ordered :: "product \<Rightarrow> product \<Rightarrow> bool" where
  "price_ordered a b =
     (case price a of
        None \<Rightarrow> price b = None
      | Some pa \<Rightarrow> (case price b of None \<Rightarrow> True | Some pb \<Rightarrow> js_le pa pb))"

definition is_request :: "effect \<Rightarrow> bool" where
  "is_request eff = (case eff of Request m p \<Rightarrow> True | _ \<Rightarrow> False)"

definition is_log :: "effect \<Rightarrow> bool" where
  "is_log eff = (case eff of SendLog l m \<Rightarrow> True | Console m \<Rightarrow> True | _ \<Rightarrow> False)"

section \<open>Example values\<close>

definition priced_100 :: product where
  "priced_100 = \<lparr>asin = JStr ''A'', title = JStr ''a'', score = Fin 1, reviews = Fin 3,
                  price = Some (Fin 100), image = JNull, raw = JNull\<rparr>"

definition unpriced_1 :: product where
  "unpriced_1 = \<lparr>asin = JStr ''B'', title = JStr ''b'', score = Fin 2, reviews = Fin 2,
                  price = None, image = JNull, raw = JNull\<rparr>"

definition priced_201 :: product where
  "priced_201 = \<lparr>asin = JStr ''C'', title = JStr ''c'', score = Fin 3, reviews = Fin 1,
                  price = Some (Fin 201), image = JNull, raw = JNull\<rparr>"

definition priced_200 :: product where
  "priced_200 = \<lparr>asin = JStr ''D'', title = JStr ''d'', score = Fin 3, reviews = Fin 1,
                  price = Some (Fin 200), image = JNull, raw = JNull\<rparr>"

definition unpriced_2 :: product where
  "unpriced_2 = \<lparr>asin = JStr ''E'', title = JStr ''e'', score = Fin 2, reviews = Fin 2,
                  price = None, image = JNull, raw = JNull\<rparr>"

text \<open>A successful response with 25 elements, each \<^verbatim>\<open>null\<close>.\<close>

definition page_of_25 :: outcome where
  "page_of_25 = Resolved \<lparr>ok = True, status = 200, text_result = None,
                           json_result = Some (JArr (replicate 25 JNull))\<rparr>"

text \<open>A successful trust response with the given score.\<close>

definition trust_response :: "rat \<Rightarrow> outcome" where
  "trust_response s = Resolved \<lparr>ok = True, status = 200, text_result = None,
                                 json_result = Some (JObj [(''trust_score'', JNum (Fin s))])\<rparr>"

definition failed_to_fetch :: outcome where
  "failed_to_fetch = Rejected (TypeError ''Failed to fetch'')"

section \<open>Properties of the Price-Range Mapper\<close>

lemma Math_round_of_int [simp]: "Math_round (of_int k) = of_int k"
proof -
  have "\<lfloor>(of_int k :: rat) + 1 / 2\<rfloor> = k" by linarith
  then show ?thesis by (simp add: Math_round_def)
qed

lemma Math_round_near_int:
  assumes "\<bar>e\<bar> < 1 / 2"
  shows "Math_round (of_int k + e) = of_int k"
proof -
  have "\<lfloor>(of_int k :: rat) + e + 1 / 2\<rfloor> = k" using assms by linarith
  then show ?thesis by (simp add: Math_round_def)
qed

lemma center_exact:
  "(1 - of_int i / 100) * (maxPrice * (6 / 10)) + (maxPrice * (2 / 10)) = (of_int (80000 - 600 * i) :: rat)"
  by (simp add: maxPrice_def field_simps)

lemma span_exact:
  "(1 - of_int i / 100) * (maxPrice * (4 / 10)) + 500 = (of_int (40500 - 400 * i) :: rat)"
  by (simp add: maxPrice_def field_simps)

lemma lower_exact:
  "(of_int (80000 - 600 * i) :: rat) - of_int (40500 - 400 * i) / 2 = of_int (59750 - 400 * i)"
  by (simp add: field_simps)

lemma upper_exact:
  "(of_int (80000 - 600 * i) :: rat) + of_int (40500 - 400 * i) / 2 = of_int (100250 - 800 * i)"
  by (simp add: field_simps)

lemma priceRange_closed_form:
  "priceRange_of (of_int i) =
     (max 0 (of_int (59750 - 400 * i)), min 100000 (of_int (100250 - 800 * i)))"
  unfolding priceRange_of_def Let_def center_exact span_exact Math_round_of_int
    lower_exact upper_exact
  by (simp add: maxPrice_def)

lemma spec_window_closed_form:
  "spec_window (of_int i) =
     (max 0 (of_int (59750 - 400 * i)), min 100000 (of_int (100250 - 800 * i)))"
proof -
  have c: "spec_center (of_int i) = of_int (80000 - 600 * i)"
  proof -
    have "(1 - of_int i / 100) * (6 / 10) * 100000 + (2 / 10) * 100000
        = (of_int (80000 - 600 * i) :: rat)"
      by (simp add: field_simps)
    then show ?thesis unfolding spec_center_def by (simp only: Math_round_of_int)
  qed
  have s: "spec_span (of_int i) = of_int (40500 - 400 * i)"
  proof -
    have "(1 - of_int i / 100) * (4 / 10) * 100000 + 500
        = (of_int (40500 - 400 * i) :: rat)"
      by (simp add: field_simps)
    then show ?thesis unfolding spec_span_def by (simp only: Math_round_of_int)
  qed
  show ?thesis
    unfolding spec_window_def c s lower_exact upper_exact Math_round_of_int by simp
qed

lemma priceRange_disturbed_same:
  assumes "\<bar>e1\<bar> < 1 / 2" and "\<bar>e2\<bar> < 1 / 2"
  shows "priceRange_disturbed e1 e2 (of_int i) = priceRange_of (of_int i)"
  unfolding priceRange_disturbed_def priceRange_of_def Let_def center_exact span_exact
    Math_round_near_int [OF assms(1)] Math_round_near_int [OF assms(2)] Math_round_of_int
  by simp

text \<open>
  C1. For every integer price importance from 0 to 100 the mapper returns exactly the
  window of the specification's formula, and that window satisfies
  \<open>0 \<le> min \<le> max \<le> 100000\<close>.
\<close>

theorem priceRange_matches_spec:
  assumes "0 \<le> i" and "i \<le> 100"
  shows "priceRange_of (of_int i) = spec_window (of_int i)
       \<and> 0 \<le> fst (priceRange_of (of_int i))
       \<and> fst (priceRange_of (of_int i)) \<le> snd (priceRange_of (of_int i))
       \<and> snd (priceRange_of (of_int i)) \<le> 100000"
proof -
  have lo: "(0::rat) \<le> of_int (59750 - 400 * i)" using assms by simp
  have "59750 - 400 * i \<le> 100250 - 800 * i" using assms by simp
  then have mid: "(of_int (59750 - 400 * i) :: rat) \<le> of_int (100250 - 800 * i)"
    by (simp only: of_int_le_iff)
  have "59750 - 400 * i \<le> 100000" using assms by simp
  then have hi: "(of_int (59750 - 400 * i) :: rat) \<le> 100000"
    by (metis of_int_le_iff of_int_numeral)
  show ?thesis
    unfolding priceRange_closed_form spec_window_closed_form
    using lo mid hi by (simp add: max_def min_def)
qed

theorem priceRange_matches_spec_witness:
  "(0::int) \<le> 30 \<and> (30::int) \<le> 100
   \<and> priceRange_of (of_int 30) = spec_window (of_int 30)
   \<and> priceRange_of (of_int 30) = (47750, 76250)"
proof -
  have "priceRange_of (of_int 30) = (47750, 76250)"
    using priceRange_closed_form [of 30] by simp
  then show ?thesis
    using priceRange_matches_spec [of 30] by simp
qed

section \<open>Properties of the price parsing\<close>

lemma strip_numeric: "list_all numeric_char (strip_non_numeric s)"
  by (simp add: strip_non_numeric_def numeric_char_def list_all_iff)

lemma drop_ws_no_prefix:
  assumes "\<And>w. w \<in> set seqs \<Longrightarrow> w \<noteq> [] \<Longrightarrow> \<not> prefix w s"
  shows "drop_ws seqs s = s"
proof -
  have "find (\<lambda>w. w \<noteq> [] \<and> prefix w s) seqs = None"
    using assms by (auto simp: find_None_iff)
  then show ?thesis by (simp add: drop_ws.simps)
qed

lemma numeric_char_cases:
  "numeric_char c \<longleftrightarrow> c \<in> set ''0123456789.''"
  by (auto simp: numeric_char_def is_digit_def)

lemma drop_ws_numeric_head:
  assumes "numeric_char c"
  shows "drop_ws ws_seqs (c # s) = c # s"
proof (rule drop_ws_no_prefix)
  fix w assume "w \<in> set ws_seqs" "w \<noteq> []"
  then show "\<not> prefix w (c # s)"
    using assms by (auto simp: ws_seqs_def numeric_char_cases)
qed

lemma drop_ws_rev_numeric_head:
  assumes "numeric_char c"
  shows "drop_ws (map rev ws_seqs) (c # s) = c # s"
proof (rule drop_ws_no_prefix)
  fix w assume "w \<in> set (map rev ws_seqs)" "w \<noteq> []"
  then show "\<not> prefix w (c # s)"
    using assms by (auto simp: ws_seqs_def numeric_char_cases)
qed

lemma drop_ws_Nil [simp]: "drop_ws seqs [] = []"
  by (rule drop_ws_no_prefix) auto

lemma trim_numeric:
  assumes "list_all numeric_char s"
  shows "trim s = s"
proof (cases s)
  case Nil
  then show ?thesis by (simp add: trim_def)
next
  case (Cons c cs)
  then have c: "numeric_char c" using assms by simp
  have 1: "drop_ws ws_seqs s = s" using Cons c by (simp add: drop_ws_numeric_head)
  obtain d ds where r: "rev s = d # ds" using Cons by (cases "rev s") auto
  then have "d \<in> set s" by (metis list.set_intros(1) set_rev)
  then have "numeric_char d" using assms by (simp add: list_all_iff)
  then have "drop_ws (map rev ws_seqs) (rev s) = rev s"
    using r by (simp add: drop_ws_rev_numeric_head)
  then show ?thesis by (simp add: trim_def 1)
qed


lemma numeric_not_exp: "numeric_char c \<Longrightarrow> \<not> is_exp_char c"
  by (auto simp: numeric_char_cases is_exp_char_def)

lemma takeWhile_numeric:
  assumes "list_all numeric_char s"
  shows "takeWhile (\<lambda>c. \<not> is_exp_char c) s = s"
    and "dropWhile (\<lambda>c. \<not> is_exp_char c) s = []"
  using assms by (auto simp: list_all_iff numeric_not_exp)

lemma StrUnsignedDecimalLiteral_numeric:
  assumes "list_all numeric_char s"
  shows "StrUnsignedDecimalLiteral s =
           (case decimal_mantissa s of Some q \<Rightarrow> Fin q | None \<Rightarrow> NaN)"
proof -
  have "s \<noteq> ''Infinity''"
    using assms by (auto simp: numeric_char_cases)
  then show ?thesis
    by (simp add: StrUnsignedDecimalLiteral_def takeWhile_numeric [OF assms]
        exponent_part_def scale10_def split: option.splits)
qed

lemma StrDecimalLiteral_numeric:
  assumes "list_all numeric_char s" and "s \<noteq> []"
  shows "StrDecimalLiteral s = StrUnsignedDecimalLiteral s"
proof -
  obtain c cs where s: "s = c # cs" using assms(2) by (cases s) auto
  then have "numeric_char c" using assms(1) by simp
  then have "c \<noteq> CHR ''+''" "c \<noteq> CHR ''-''"
    by (auto simp: numeric_char_cases)
  then show ?thesis by (simp add: StrDecimalLiteral_def s)
qed

lemma StringToNumber_numeric:
  assumes "list_all numeric_char s"
  shows "StringToNumber s =
           (if s = [] then Fin 0
            else case decimal_mantissa s of Some q \<Rightarrow> Fin q | None \<Rightarrow> NaN)"
proof -
  have t: "trim s = s" by (rule trim_numeric [OF assms])
  show ?thesis
  proof (cases s)
    case Nil
    then show ?thesis unfolding StringToNumber_def t Let_def by simp
  next
    case (Cons c cs)
    note s = Cons
    have dec: "StrDecimalLiteral s = (case decimal_mantissa s of Some q \<Rightarrow> Fin q | None \<Rightarrow> NaN)"
      using assms s
      by (simp add: StrDecimalLiteral_numeric StrUnsignedDecimalLiteral_numeric)
    show ?thesis
    proof (cases cs)
      case Nil
      then show ?thesis
        unfolding StringToNumber_def t Let_def using dec s by simp
    next
      case (Cons d ds)
      have "numeric_char d" using assms s Cons by simp
      then have "d \<notin> set ''xXoObB''"
        by (auto simp: numeric_char_cases)
      then show ?thesis
        unfolding StringToNumber_def t Let_def using dec s Cons by simp
    qed
  qed
qed

lemma parsedPrice_string:
  "parsedPrice (JStr s) =
     (if StringToNumber (strip_non_numeric s) = NaN \<or> StringToNumber (strip_non_numeric s) = Fin 0
      then None else Some (StringToNumber (strip_non_numeric s)))"
proof (cases "s = []")
  case True
  then show ?thesis
    by (simp add: parsedPrice_def strip_non_numeric_def StringToNumber_def trim_def)
next
  case False
  then show ?thesis
    by (simp add: parsedPrice_def falsy_def Let_def)
qed

text \<open>
  C3 (amended). The price parsing keeps a Number as it is; for a string it strips every
  character that is not a digit or a decimal point and parses the remainder, and yields
  that Number when it is neither NaN nor zero and the absent price otherwise (so a
  remainder that is empty, \<^verbatim>\<open>"0"\<close> or \<^verbatim>\<open>"0.00"\<close> is the absent price); a value
  of any other type yields the absent price.
\<close>

theorem parsedPrice_rule:
  "parsedPrice (JNum n) = Some n
   \<and> parsedPrice (JStr s) =
       (if StringToNumber (strip_non_numeric s) = NaN
           \<or> StringToNumber (strip_non_numeric s) = Fin 0
        then None else Some (StringToNumber (strip_non_numeric s)))
   \<and> parsedPrice JNull = None
   \<and> parsedPrice (JBool b) = None
   \<and> parsedPrice (JArr xs) = None
   \<and> parsedPrice (JObj kvs) = None"
  using parsedPrice_string [of s] by (simp add: parsedPrice_def)

text \<open>
  Against C3 as stated: the string \<^verbatim>\<open>"0"\<close> parses to the finite Number 0, and its
  price is absent.
\<close>

theorem parsedPrice_zero_counterexample:
  "StringToNumber (strip_non_numeric ''0'') = Fin 0 \<and> parsedPrice (JStr ''0'') = None"
  by code_simp

lemma strip_rupee: "strip_non_numeric ([CHR 0xE2, CHR 0x82, CHR 0xB9] @ ''1,299'') = ''1299''"
  by (simp add: strip_non_numeric_def is_digit_def)

lemma number_1299: "StringToNumber ''1299'' = Fin 1299"
proof -
  have "list_all numeric_char ''1299''" by (simp add: numeric_char_def is_digit_def)
  then show ?thesis
    by (simp add: StringToNumber_numeric decimal_mantissa_def is_digit_def nat_of_digits_def
        digit_val_def)
qed

lemma parsedPrice_rupee:
  "parsedPrice (JStr ([CHR 0xE2, CHR 0x82, CHR 0xB9] @ ''1,299'')) = Some (Fin 1299)"
  unfolding parsedPrice_string strip_rupee number_1299 by simp

section \<open>Properties of the Response Normalizer\<close>

lemma digit_val_char_of: "d < 10 \<Longrightarrow> digit_val (char_of (48 + d)) = d"
  by (simp add: digit_val_def)

lemma nat_of_digits_snoc: "nat_of_digits (ds @ [c]) = 10 * nat_of_digits ds + digit_val c"
  by (simp add: nat_of_digits_def)

lemma nat_of_digits_ToString_nat: "nat_of_digits (ToString_nat n) = n"
proof (induction n rule: ToString_nat.induct)
  case (1 n)
  show ?case
  proof (cases "n < 10")
    case True
    then show ?thesis
      by (subst ToString_nat.simps) (simp add: nat_of_digits_def digit_val_char_of)
  next
    case False
    then have "nat_of_digits (ToString_nat (n div 10)) = n div 10" using 1 by simp
    then show ?thesis
      using False
      by (subst ToString_nat.simps) (simp add: nat_of_digits_snoc digit_val_char_of)
  qed
qed

lemma ToString_nat_inj: "ToString_nat m = ToString_nat n \<Longrightarrow> m = n"
  by (metis nat_of_digits_ToString_nat)

lemma first_present_not_null: "first_present vs = Some v \<Longrightarrow> v \<noteq> JNull"
  by (induction vs rule: first_present.induct) (auto split: if_splits)

lemma coalesce_missing: "missing p names \<Longrightarrow> coalesce (map (get p) names) d = d"
  by (simp add: missing_def coalesce_def)

lemma get_non_object:
  "get JNull name = None" "get (JBool b) name = None" "get (JNum n) name = None"
  "get (JStr s) name = None" "get (JArr xs) name = None" "get (JObj []) name = None"
  by (simp_all add: get_def)

lemma first_present_all_None:
  "(\<And>name. g name = None) \<Longrightarrow> first_present (map g names) = None"
  by (induction names) auto

lemma missing_non_object:
  "missing JNull names" "missing (JBool b) names" "missing (JNum n) names"
  "missing (JStr s) names" "missing (JArr xs) names" "missing (JObj []) names"
  unfolding missing_def by (rule first_present_all_None, simp add: get_def)+

lemma Number_or_0_eq:
  "Number_or_0 v = (if ToPrimitive_throws v then Inl cannot_convert else Inr (or_0 (number_of v)))"
  by (simp add: Number_or_0_def ToNumber_def or_0_def)

lemma reviews_operand_cases:
  "reviews_operand rnd k p =
     (if missing p [''reviews'', ''review_count'']
      then (JNum (Fin (Math_round (rnd k * 2000))), Suc k)
      else (the (first_present [get p ''reviews'', get p ''review_count'']), k))"
  by (auto simp: reviews_operand_def missing_def split: option.splits)

lemma reviews_operand_snd:
  "snd (reviews_operand rnd k p) = (if missing p [''reviews'', ''review_count''] then Suc k else k)"
  by (simp add: reviews_operand_cases)

lemma reviews_operand_throws:
  "ToPrimitive_throws (fst (reviews_operand rnd k p)) \<longleftrightarrow>
     (case first_present [get p ''reviews'', get p ''review_count''] of
        Some v \<Rightarrow> ToPrimitive_throws v | None \<Rightarrow> False)"
  by (simp add: reviews_operand_def split: option.splits)

lemma normalize_elem_eq:
  "normalize_elem rnd k idx p =
     (if convertible_elem p
      then Inr (product_of rnd k idx p, snd (reviews_operand rnd k p))
      else Inl cannot_convert)"
proof -
  obtain rv k' where r: "reviews_operand rnd k p = (rv, k')"
    by (cases "reviews_operand rnd k p")
  have c: "convertible_elem p \<longleftrightarrow>
      \<not> ToPrimitive_throws (coalesce [get p ''score'', get p ''similarity''] (JNum (Fin 0)))
      \<and> \<not> ToPrimitive_throws rv"
    using reviews_operand_throws [of rnd k p] r
    by (auto simp: convertible_elem_def split: option.splits)
  show ?thesis
    unfolding normalize_elem_def Let_def r Number_or_0_eq c product_of_def
    by simp
qed

lemma draws_before_0 [simp]: "draws_before ps 0 = 0"
  by (simp add: draws_before_def)

lemma draws_before_Suc:
  "draws_before (p # ps) (Suc i) =
     (if missing p [''reviews'', ''review_count''] then Suc (draws_before ps i) else draws_before ps i)"
  by (simp add: draws_before_def)

lemma normalize_from_eq:
  "normalize_from rnd k idx ps =
     (if list_all convertible_elem ps
      then Inr (map (\<lambda>i. product_of rnd (k + draws_before ps i) (idx + i) (ps ! i)) [0..<length ps])
      else Inl cannot_convert)"
proof (induction ps arbitrary: k idx)
  case Nil
  show ?case by simp
next
  case (Cons p ps)
  show ?case
  proof (cases "convertible_elem p")
    case False
    then show ?thesis by (simp add: normalize_elem_eq)
  next
    case True
    let ?k' = "snd (reviews_operand rnd k p)"
    have step: "normalize_from rnd k idx (p # ps) =
        (case normalize_from rnd ?k' (Suc idx) ps of
           Inl e \<Rightarrow> Inl e
         | Inr xs \<Rightarrow> Inr (product_of rnd k idx p # xs))"
      using True by (simp add: normalize_elem_eq)
    show ?thesis
    proof (cases "list_all convertible_elem ps")
      case False
      then show ?thesis unfolding step Cons.IH using True by simp
    next
      case all: True
      have shift: "map (\<lambda>i. product_of rnd (k + draws_before (p # ps) i) (idx + i) ((p # ps) ! i))
                     [0..<length (p # ps)]
                 = product_of rnd k idx p #
                   map (\<lambda>i. product_of rnd (?k' + draws_before ps i) (Suc idx + i) (ps ! i))
                     [0..<length ps]"
        by (simp add: map_upt_Suc draws_before_Suc reviews_operand_snd del: upt_Suc)
      show ?thesis
        unfolding step Cons.IH shift using True all by simp
    qed
  qed
qed

lemma normalized_eq:
  "normalized rnd j =
     (if list_all convertible_elem (ensure_array j)
      then Inr (map (\<lambda>i. product_of rnd (draws_before (ensure_array j) i) i (ensure_array j ! i))
                  [0..<length (ensure_array j)])
      else Inl cannot_convert)"
  by (simp add: normalized_def normalize_from_eq)

lemma or_0_not_NaN: "or_0 n \<noteq> NaN"
  by (simp add: or_0_def falsy_def)

lemma Math_round_random:
  assumes "0 \<le> r" and "r < 1"
  shows "\<exists>n\<le>2000. Math_round (r * 2000) = of_nat n"
proof -
  define f where "f = \<lfloor>r * 2000 + 1 / 2\<rfloor>"
  have "0 \<le> r * 2000 + 1 / 2" using assms by simp
  then have lo: "0 \<le> f" unfolding f_def by (simp only: zero_le_floor)
  have "r * 2000 + 1 / 2 < of_int 2001" using assms by simp
  then have "f < 2001" unfolding f_def by (simp only: floor_less_iff)
  then have hi: "nat f \<le> 2000" by simp
  have "Math_round (r * 2000) = of_nat (nat f)"
    using lo by (simp add: Math_round_def f_def)
  then show ?thesis using hi by blast
qed

lemma product_of_reviews_missing:
  assumes "missing p [''reviews'', ''review_count'']"
  shows "reviews (product_of rnd k idx p) = Fin (Math_round (rnd k * 2000))"
  using assms by (simp add: product_of_def reviews_operand_cases or_0_def falsy_def)

lemma product_of_reviews_present:
  assumes "first_present [get p ''reviews'', get p ''review_count''] = Some v"
  shows "reviews (product_of rnd k idx p) = or_0 (number_of v)"
  using assms by (simp add: product_of_def reviews_operand_def)

lemma product_of_asin_missing:
  assumes "missing p [''asin'', ''ASIN'']"
  shows "asin (product_of rnd k idx p) = JStr (''ASINFALLBACK'' @ ToString_nat idx)"
  using coalesce_missing [OF assms] by (simp add: product_of_def)

lemma product_of_title_missing:
  assumes "missing p [''title'', ''name'', ''summary'']"
  shows "title (product_of rnd k idx p) = JStr ''Untitled product''"
  using coalesce_missing [OF assms] by (simp add: product_of_def)

lemma product_of_score_missing:
  assumes "missing p [''score'', ''similarity'']"
  shows "score (product_of rnd k idx p) = Fin 0"
  using coalesce_missing [OF assms] by (simp add: product_of_def or_0_def)

lemma product_of_image_missing:
  assumes "missing p [''image'']"
  shows "image (product_of rnd k idx p) = JNull"
  using coalesce_missing [OF assms] by (simp add: product_of_def)

lemma product_of_price_missing:
  assumes "missing p [''price'', ''price_value'', ''pricing'']"
  shows "price (product_of rnd k idx p) = None"
  using coalesce_missing [OF assms] by (simp add: product_of_def parsedPrice_def)

lemma coalesce_present: "first_present vs = Some v \<Longrightarrow> coalesce vs d = v"
  by (simp add: coalesce_def)

text \<open>
  C2 (amended). A value that is not an array is treated as the empty array. For every
  array in which no score or review-count operand fails to convert to a primitive, the
  normalizer does not throw and yields exactly one Product per element, in order: each
  missing field (absent or null) gets its default, a score or review count that does
  not convert to a usable Number becomes 0, a price follows the price parsing, and an
  asin, title or image of any other type is passed through unchanged.
\<close>

theorem normalized_total_when_convertible:
  assumes "list_all convertible_elem (ensure_array j)"
  shows "\<exists>ps. normalized rnd j = Inr ps
       \<and> length ps = length (ensure_array j)
       \<and> (\<forall>i<length ps.
            let p = ensure_array j ! i; x = ps ! i in
              raw x = p
            \<and> asin x = coalesce [get p ''asin'', get p ''ASIN''] (JStr (''ASINFALLBACK'' @ ToString_nat i))
            \<and> title x = coalesce [get p ''title'', get p ''name'', get p ''summary''] (JStr ''Untitled product'')
            \<and> image x = coalesce [get p ''image''] JNull
            \<and> price x = parsedPrice (coalesce [get p ''price'', get p ''price_value'', get p ''pricing''] JNull)
            \<and> score x = or_0 (number_of (coalesce [get p ''score'', get p ''similarity''] (JNum (Fin 0))))
            \<and> (case first_present [get p ''reviews'', get p ''review_count''] of
                 Some v \<Rightarrow> reviews x = or_0 (number_of v)
               | None \<Rightarrow> reviews x = Fin (Math_round (rnd (draws_before (ensure_array j) i) * 2000)))
            \<and> (missing p [''asin'', ''ASIN''] \<longrightarrow> asin x = JStr (''ASINFALLBACK'' @ ToString_nat i))
            \<and> (missing p [''title'', ''name'', ''summary''] \<longrightarrow> title x = JStr ''Untitled product'')
            \<and> (missing p [''image''] \<longrightarrow> image x = JNull)
            \<and> (missing p [''price'', ''price_value'', ''pricing''] \<longrightarrow> price x = None)
            \<and> (missing p [''score'', ''similarity''] \<longrightarrow> score x = Fin 0))
       \<and> ((\<forall>xs. j \<noteq> JArr xs) \<longrightarrow> ps = [])"
proof -
  let ?arr = "ensure_array j"
  let ?ps = "map (\<lambda>i. product_of rnd (draws_before ?arr i) i (?arr ! i)) [0..<length ?arr]"
  have eq: "normalized rnd j = Inr ?ps"
    using assms by (simp add: normalized_eq)
  have len: "length ?ps = length ?arr" by simp
  have fields: "let p = ?arr ! i; x = ?ps ! i in
              raw x = p
            \<and> asin x = coalesce [get p ''asin'', get p ''ASIN''] (JStr (''ASINFALLBACK'' @ ToString_nat i))
            \<and> title x = coalesce [get p ''title'', get p ''name'', get p ''summary''] (JStr ''Untitled product'')
            \<and> image x = coalesce [get p ''image''] JNull
            \<and> price x = parsedPrice (coalesce [get p ''price'', get p ''price_value'', get p ''pricing''] JNull)
            \<and> score x = or_0 (number_of (coalesce [get p ''score'', get p ''similarity''] (JNum (Fin 0))))
            \<and> (case first_present [get p ''reviews'', get p ''review_count''] of
                 Some v \<Rightarrow> reviews x = or_0 (number_of v)
               | None \<Rightarrow> reviews x = Fin (Math_round (rnd (draws_before ?arr i) * 2000)))
            \<and> (missing p [''asin'', ''ASIN''] \<longrightarrow> asin x = JStr (''ASINFALLBACK'' @ ToString_nat i))
            \<and> (missing p [''title'', ''name'', ''summary''] \<longrightarrow> title x = JStr ''Untitled product'')
            \<and> (missing p [''image''] \<longrightarrow> image x = JNull)
            \<and> (missing p [''price'', ''price_value'', ''pricing''] \<longrightarrow> price x = None)
            \<and> (missing p [''score'', ''similarity''] \<longrightarrow> score x = Fin 0)"
    if i: "i < length ?ps" for i
  proof -
    let ?p = "?arr ! i"
    let ?x = "product_of rnd (draws_before ?arr i) i ?p"
    have x: "?ps ! i = ?x" using i by simp
    have rv: "case first_present [get ?p ''reviews'', get ?p ''review_count''] of
                 Some v \<Rightarrow> reviews ?x = or_0 (number_of v)
               | None \<Rightarrow> reviews ?x = Fin (Math_round (rnd (draws_before ?arr i) * 2000))"
    proof (cases "first_present [get ?p ''reviews'', get ?p ''review_count'']")
      case None
      then have "missing ?p [''reviews'', ''review_count'']" by (simp add: missing_def)
      then show ?thesis using None by (simp add: product_of_reviews_missing)
    next
      case (Some v)
      then show ?thesis by (simp add: product_of_reviews_present)
    qed
    have basic: "raw ?x = ?p"
      "asin ?x = coalesce [get ?p ''asin'', get ?p ''ASIN''] (JStr (''ASINFALLBACK'' @ ToString_nat i))"
      "title ?x = coalesce [get ?p ''title'', get ?p ''name'', get ?p ''summary''] (JStr ''Untitled product'')"
      "image ?x = coalesce [get ?p ''image''] JNull"
      "price ?x = parsedPrice (coalesce [get ?p ''price'', get ?p ''price_value'', get ?p ''pricing''] JNull)"
      "score ?x = or_0 (number_of (coalesce [get ?p ''score'', get ?p ''similarity''] (JNum (Fin 0))))"
      by (simp_all add: product_of_def)
    show ?thesis
      unfolding Let_def x
      using rv basic product_of_asin_missing product_of_title_missing product_of_image_missing
        product_of_price_missing product_of_score_missing
      by blast
  qed
  have nonarr: "(\<forall>xs. j \<noteq> JArr xs) \<longrightarrow> ?ps = []"
    by (cases j) (simp_all add: ensure_array_def)
  show ?thesis
    using eq len fields nonarr by blast
qed

theorem normalized_total_when_convertible_witness:
  "list_all convertible_elem
     (ensure_array (JArr [JNull, JObj [],
        JObj [(''price'', JStr ([CHR 0xE2, CHR 0x82, CHR 0xB9] @ ''1,299''))]]))
   \<and> (\<exists>ps. normalized (\<lambda>k. 1 / 4) (JArr [JNull, JObj [],
              JObj [(''price'', JStr ([CHR 0xE2, CHR 0x82, CHR 0xB9] @ ''1,299''))]]) = Inr ps
          \<and> length ps = 3)"
proof -
  let ?j = "JArr [JNull, JObj [],
        JObj [(''price'', JStr ([CHR 0xE2, CHR 0x82, CHR 0xB9] @ ''1,299''))]]"
  have h: "list_all convertible_elem (ensure_array ?j)"
    by code_simp
  have l: "length (ensure_array ?j) = 3"
    by (simp add: ensure_array_def)
  show ?thesis
    using h l normalized_total_when_convertible [OF h, of "\<lambda>k. 1 / 4"] by auto
qed

text \<open>
  Against C2 as stated: an element whose score is an object with an own property
  \<^verbatim>\<open>toString\<close> makes the normalizer throw, and a title that is a Number is kept
  instead of the default.
\<close>

theorem normalized_throws_counterexample:
  "normalized (\<lambda>k. 0) (JArr [JObj [(''score'', JObj [(''toString'', JNull)])]])
     = Inl (TypeError ''Cannot convert object to primitive value'')
   \<and> map_sum id (map title) (normalized (\<lambda>k. 0) (JArr [JObj [(''title'', JNum (Fin 5))]]))
     = Inr [JNum (Fin 5)]"
  by code_simp

lemma normalized_Inr:
  assumes "normalized rnd j = Inr ps"
  shows "ps = map (\<lambda>i. product_of rnd (draws_before (ensure_array j) i) i (ensure_array j ! i))
                [0..<length (ensure_array j)]"
  using assms by (simp add: normalized_eq split: if_splits)

text \<open>
  C4 (amended). Every Product of one normalizer pass has a score and a review count that
  are Numbers other than NaN. Each is the Number its source field converts to, with 0 in
  place of NaN and of zero (a negative or fractional source value is kept); the score
  is 0 when its field is missing, and the review count is an integer from 0 to 2000
  when its field is missing (\<^verbatim>\<open>Math.random\<close> returns values in \<open>[0, 1)\<close>). The asin is
  the source asin where there is one and \<^verbatim>\<open>ASINFALLBACK<index>\<close> otherwise, and these
  synthesized values are pairwise distinct.
\<close>

theorem product_invariants:
  assumes "normalized rnd j = Inr ps" and "\<forall>k. 0 \<le> rnd k \<and> rnd k < 1"
  shows "(\<forall>i<length ps.
            let p = ensure_array j ! i; x = ps ! i in
              score x \<noteq> NaN
            \<and> score x = or_0 (number_of (coalesce [get p ''score'', get p ''similarity''] (JNum (Fin 0))))
            \<and> (missing p [''score'', ''similarity''] \<longrightarrow> score x = Fin 0)
            \<and> reviews x \<noteq> NaN
            \<and> (case first_present [get p ''reviews'', get p ''review_count''] of
                 Some v \<Rightarrow> reviews x = or_0 (number_of v)
               | None \<Rightarrow> (\<exists>n\<le>2000. reviews x = Fin (of_nat n)))
            \<and> (missing p [''reviews'', ''review_count''] \<longrightarrow> (\<exists>n\<le>2000. reviews x = Fin (of_nat n)))
            \<and> asin x = coalesce [get p ''asin'', get p ''ASIN''] (JStr (''ASINFALLBACK'' @ ToString_nat i))
            \<and> (missing p [''asin'', ''ASIN''] \<longrightarrow> asin x = JStr (''ASINFALLBACK'' @ ToString_nat i)))
       \<and> (\<forall>i<length ps. \<forall>i'<length ps.
            i \<noteq> i' \<longrightarrow> missing (ensure_array j ! i) [''asin'', ''ASIN'']
                   \<longrightarrow> missing (ensure_array j ! i') [''asin'', ''ASIN'']
                   \<longrightarrow> asin (ps ! i) \<noteq> asin (ps ! i'))"
proof -
  let ?arr = "ensure_array j"
  note ps = normalized_Inr [OF assms(1)]
  have len: "length ps = length ?arr" by (subst ps) simp
  have nth: "ps ! i = product_of rnd (draws_before ?arr i) i (?arr ! i)" if "i < length ps" for i
    using that len by (subst ps) simp
  have one: "let p = ?arr ! i; x = ps ! i in
              score x \<noteq> NaN
            \<and> score x = or_0 (number_of (coalesce [get p ''score'', get p ''similarity''] (JNum (Fin 0))))
            \<and> (missing p [''score'', ''similarity''] \<longrightarrow> score x = Fin 0)
            \<and> reviews x \<noteq> NaN
            \<and> (case first_present [get p ''reviews'', get p ''review_count''] of
                 Some v \<Rightarrow> reviews x = or_0 (number_of v)
               | None \<Rightarrow> (\<exists>n\<le>2000. reviews x = Fin (of_nat n)))
            \<and> (missing p [''reviews'', ''review_count''] \<longrightarrow> (\<exists>n\<le>2000. reviews x = Fin (of_nat n)))
            \<and> asin x = coalesce [get p ''asin'', get p ''ASIN''] (JStr (''ASINFALLBACK'' @ ToString_nat i))
            \<and> (missing p [''asin'', ''ASIN''] \<longrightarrow> asin x = JStr (''ASINFALLBACK'' @ ToString_nat i))"
    if i: "i < length ps" for i
  proof -
    let ?p = "?arr ! i"
    let ?k = "draws_before ?arr i"
    let ?x = "product_of rnd ?k i ?p"
    have s1: "score ?x \<noteq> NaN" and r1: "reviews ?x \<noteq> NaN"
      by (simp_all add: product_of_def or_0_not_NaN)
    have s2: "score ?x = or_0 (number_of (coalesce [get ?p ''score'', get ?p ''similarity''] (JNum (Fin 0))))"
      by (simp add: product_of_def)
    have a2: "asin ?x = coalesce [get ?p ''asin'', get ?p ''ASIN''] (JStr (''ASINFALLBACK'' @ ToString_nat i))"
      by (simp add: product_of_def)
    have r2: "\<exists>n\<le>2000. reviews ?x = Fin (of_nat n)" if "missing ?p [''reviews'', ''review_count'']"
    proof -
      obtain n where "n \<le> 2000" "Math_round (rnd ?k * 2000) = of_nat n"
        using Math_round_random [of "rnd ?k"] assms(2) by blast
      then show ?thesis using product_of_reviews_missing [OF that, of rnd ?k i] by auto
    qed
    have r3: "case first_present [get ?p ''reviews'', get ?p ''review_count''] of
                 Some v \<Rightarrow> reviews ?x = or_0 (number_of v)
               | None \<Rightarrow> (\<exists>n\<le>2000. reviews ?x = Fin (of_nat n))"
    proof (cases "first_present [get ?p ''reviews'', get ?p ''review_count'']")
      case None
      then have "missing ?p [''reviews'', ''review_count'']" by (simp add: missing_def)
      then show ?thesis using None r2 by simp
    next
      case (Some v)
      then show ?thesis by (simp add: product_of_reviews_present)
    qed
    show ?thesis
      unfolding Let_def nth [OF i]
      using s1 s2 r1 r2 r3 a2 product_of_score_missing product_of_asin_missing by blast
  qed
  have two: "asin (ps ! i) \<noteq> asin (ps ! i')"
    if "i < length ps" "i' < length ps" "i \<noteq> i'"
      "missing (?arr ! i) [''asin'', ''ASIN'']" "missing (?arr ! i') [''asin'', ''ASIN'']" for i i'
  proof -
    have "asin (ps ! i) = JStr (''ASINFALLBACK'' @ ToString_nat i)"
      using that by (simp add: nth product_of_asin_missing)
    moreover have "asin (ps ! i') = JStr (''ASINFALLBACK'' @ ToString_nat i')"
      using that by (simp add: nth product_of_asin_missing)
    ultimately show ?thesis using ToString_nat_inj that(3) by auto
  qed
  show ?thesis using one two by blast
qed

theorem product_invariants_witness:
  "normalized (\<lambda>k. 1 / 4) (JArr [JNull, JObj [(''reviews'', JNum (Fin (- 5 / 2)))]])
     = Inr [\<lparr>asin = JStr ''ASINFALLBACK0'', title = JStr ''Untitled product'', score = Fin 0,
             reviews = Fin 500, price = None, image = JNull, raw = JNull\<rparr>,
            \<lparr>asin = JStr ''ASINFALLBACK1'', title = JStr ''Untitled product'', score = Fin 0,
             reviews = Fin (- 5 / 2), price = None, image = JNull,
             raw = JObj [(''reviews'', JNum (Fin (- 5 / 2)))]\<rparr>]
   \<and> (\<forall>k::nat. (0::rat) \<le> 1 / 4 \<and> (1 / 4 :: rat) < 1)
   \<and> (\<exists>ps. normalized (\<lambda>k. 1 / 4) (JArr [JNull, JObj [(''reviews'', JNum (Fin (- 5 / 2)))]]) = Inr ps
          \<and> score (ps ! 0) \<noteq> NaN
          \<and> reviews (ps ! 0) \<noteq> NaN
          \<and> (\<exists>n\<le>2000. reviews (ps ! 0) = Fin (of_nat n))
          \<and> reviews (ps ! 1) = Fin (- 5 / 2)
          \<and> asin (ps ! 0) \<noteq> asin (ps ! 1))"
proof -
  let ?r = "\<lambda>k::nat. (1 / 4 :: rat)"
  let ?e = "JObj [(''reviews'', JNum (Fin (- 5 / 2)))]"
  let ?j = "JArr [JNull, ?e]"
  let ?ps = "[\<lparr>asin = JStr ''ASINFALLBACK0'', title = JStr ''Untitled product'', score = Fin 0,
             reviews = Fin 500, price = None, image = JNull, raw = JNull\<rparr>,
            \<lparr>asin = JStr ''ASINFALLBACK1'', title = JStr ''Untitled product'', score = Fin 0,
             reviews = Fin (- 5 / 2), price = None, image = JNull, raw = ?e\<rparr>]"
  have a: "normalized ?r ?j = Inr ?ps" by code_simp
  have b: "\<forall>k. 0 \<le> ?r k \<and> ?r k < 1" by simp
  note t = product_invariants [OF a b]
  have m0: "missing (ensure_array ?j ! 0) names" for names
    by (simp add: ensure_array_def missing_non_object)
  have m1: "missing (ensure_array ?j ! 1) [''asin'', ''ASIN'']"
    by (simp add: ensure_array_def missing_def get_def)
  have f1: "first_present [get (ensure_array ?j ! 1) ''reviews'', get (ensure_array ?j ! 1) ''review_count'']
              = Some (JNum (Fin (- 5 / 2)))"
    by (simp add: ensure_array_def get_def)
  have l0: "0 < length ?ps" and l1: "1 < length ?ps" by simp_all
  from t have all: "\<forall>i<length ?ps.
            let p = ensure_array ?j ! i; x = ?ps ! i in
              score x \<noteq> NaN
            \<and> score x = or_0 (number_of (coalesce [get p ''score'', get p ''similarity''] (JNum (Fin 0))))
            \<and> (missing p [''score'', ''similarity''] \<longrightarrow> score x = Fin 0)
            \<and> reviews x \<noteq> NaN
            \<and> (case first_present [get p ''reviews'', get p ''review_count''] of
                 Some v \<Rightarrow> reviews x = or_0 (number_of v)
               | None \<Rightarrow> (\<exists>n\<le>2000. reviews x = Fin (of_nat n)))
            \<and> (missing p [''reviews'', ''review_count''] \<longrightarrow> (\<exists>n\<le>2000. reviews x = Fin (of_nat n)))
            \<and> asin x = coalesce [get p ''asin'', get p ''ASIN''] (JStr (''ASINFALLBACK'' @ ToString_nat i))
            \<and> (missing p [''asin'', ''ASIN''] \<longrightarrow> asin x = JStr (''ASINFALLBACK'' @ ToString_nat i))"
    by (rule conjunct1)
  from t have dist: "\<forall>i<length ?ps. \<forall>i'<length ?ps.
            i \<noteq> i' \<longrightarrow> missing (ensure_array ?j ! i) [''asin'', ''ASIN'']
                   \<longrightarrow> missing (ensure_array ?j ! i') [''asin'', ''ASIN'']
                   \<longrightarrow> asin (?ps ! i) \<noteq> asin (?ps ! i')"
    by (rule conjunct2)
  have ne: "(0::nat) \<noteq> 1" by simp
  have two: "asin (?ps ! 0) \<noteq> asin (?ps ! 1)"
    by (rule dist [rule_format, OF l0 l1 ne m0 m1])
  note e0 = all [rule_format, OF l0, unfolded Let_def]
  note e1 = all [rule_format, OF l1, unfolded Let_def]
  from e0 have s0: "score (?ps ! 0) \<noteq> NaN" by (elim conjE)
  from e0 have r0: "reviews (?ps ! 0) \<noteq> NaN" by (elim conjE)
  from e0 have "missing (ensure_array ?j ! 0) [''reviews'', ''review_count'']
      \<longrightarrow> (\<exists>n\<le>2000. reviews (?ps ! 0) = Fin (of_nat n))"
    by (elim conjE)
  then have n0: "\<exists>n\<le>2000. reviews (?ps ! 0) = Fin (of_nat n)"
    using m0 by (rule mp)
  from e1 have "case first_present [get (ensure_array ?j ! 1) ''reviews'', get (ensure_array ?j ! 1) ''review_count''] of
          Some v \<Rightarrow> reviews (?ps ! 1) = or_0 (number_of v)
        | None \<Rightarrow> (\<exists>n\<le>2000. reviews (?ps ! 1) = Fin (of_nat n))"
    by (elim conjE)
  then have four: "reviews (?ps ! 1) = Fin (- 5 / 2)"
    unfolding f1 by (simp add: or_0_def falsy_def)
  have ex: "\<exists>ps. normalized ?r ?j = Inr ps
          \<and> score (ps ! 0) \<noteq> NaN
          \<and> reviews (ps ! 0) \<noteq> NaN
          \<and> (\<exists>n\<le>2000. reviews (ps ! 0) = Fin (of_nat n))
          \<and> reviews (ps ! 1) = Fin (- 5 / 2)
          \<and> asin (ps ! 0) \<noteq> asin (ps ! 1)"
    by (rule exI [of _ ?ps]) (intro conjI a s0 r0 n0 four two)
  from a b ex show ?thesis by (intro conjI)
qed

text \<open>
  Against C4 as stated: a negative source score and a negative fractional review count
  are kept, and two elements with the same source asin give two Products with the same
  asin.
\<close>

theorem product_invariants_counterexample:
  "map_sum id (map score) (normalized (\<lambda>k. 0) (JArr [JObj [(''score'', JNum (Fin (- 1)))]]))
     = Inr [Fin (- 1)]
   \<and> map_sum id (map reviews) (normalized (\<lambda>k. 0) (JArr [JObj [(''reviews'', JNum (Fin (- 5 / 2)))]]))
     = Inr [Fin (- 5 / 2)]
   \<and> map_sum id (map asin)
        (normalized (\<lambda>k. 0) (JArr [JObj [(''asin'', JStr ''A1'')], JObj [(''asin'', JStr ''A1'')]]))
     = Inr [JStr ''A1'', JStr ''A1'']"
  by code_simp

section \<open>Properties of the filter\<close>

lemma in_window_iff:
  assumes "price x \<noteq> Some NaN"
  shows "in_window (minP, maxP) x \<longleftrightarrow>
           price x = None \<or> (\<exists>n. price x = Some n \<and> js_le (Fin minP) n \<and> js_le n (Fin maxP))"
  using assms by (cases "price x") (auto simp: in_window_def js_ge_def)

lemma in_window_absent: "price x = None \<Longrightarrow> in_window w x"
  by (cases w) (simp add: in_window_def)

lemma parsedPrice_NaN: "parsedPrice v = Some NaN \<longleftrightarrow> v = JNum NaN"
  by (cases v) (auto simp: parsedPrice_def falsy_def Let_def)

lemma normalized_price_not_NaN:
  assumes "normalized rnd j = Inr ps"
    and "\<forall>p \<in> set (ensure_array j).
           coalesce [get p ''price'', get p ''price_value'', get p ''pricing''] JNull \<noteq> JNum NaN"
  shows "\<forall>x \<in> set ps. price x \<noteq> Some NaN"
proof
  fix x assume "x \<in> set ps"
  then obtain i where i: "i < length ps" "x = ps ! i" by (auto simp: in_set_conv_nth)
  let ?arr = "ensure_array j"
  note ps = normalized_Inr [OF assms(1)]
  have len: "length ps = length ?arr" by (subst ps) simp
  have "x = product_of rnd (draws_before ?arr i) i (?arr ! i)"
    using i len by (subst (asm) (2) ps) simp
  then have "price x = parsedPrice (coalesce [get (?arr ! i) ''price'', get (?arr ! i) ''price_value'',
      get (?arr ! i) ''pricing''] JNull)"
    by (simp add: product_of_def)
  moreover have "?arr ! i \<in> set ?arr" using i len by simp
  ultimately show "price x \<noteq> Some NaN"
    using assms(2) by (simp add: parsedPrice_NaN)
qed

text \<open>
  C5. For every list of Products and every price window, the filter keeps a Product if
  and only if its price is absent or lies in the window, both bounds included; a
  Product without price is never excluded. A price is a Number other than NaN or absent:
  JSON has no NaN and the price parsing yields none (\<open>normalized_price_not_NaN\<close>).
\<close>

theorem filtered_rule:
  assumes "\<forall>x \<in> set xs. price x \<noteq> Some NaN"
  shows "filtered (minP, maxP) xs =
           filter (\<lambda>x. price x = None
                       \<or> (\<exists>n. price x = Some n \<and> js_le (Fin minP) n \<and> js_le n (Fin maxP))) xs
       \<and> (\<forall>x \<in> set xs. price x = None \<longrightarrow> x \<in> set (filtered (minP, maxP) xs))"
proof -
  have "filtered (minP, maxP) xs =
           filter (\<lambda>x. price x = None
                       \<or> (\<exists>n. price x = Some n \<and> js_le (Fin minP) n \<and> js_le n (Fin maxP))) xs"
    unfolding filtered_def
    by (rule filter_cong [OF refl]) (use assms in_window_iff in blast)
  moreover have "\<forall>x \<in> set xs. price x = None \<longrightarrow> x \<in> set (filtered (minP, maxP) xs)"
    by (simp add: filtered_def in_window_absent)
  ultimately show ?thesis by blast
qed

theorem filtered_rule_witness:
  "price priced_100 \<noteq> Some NaN \<and> price unpriced_1 \<noteq> Some NaN
   \<and> price priced_201 \<noteq> Some NaN \<and> price priced_200 \<noteq> Some NaN
   \<and> filtered (100, 200) [priced_100, unpriced_1, priced_201, priced_200]
       = [priced_100, unpriced_1, priced_200]"
proof -
  have h: "\<forall>x \<in> set [priced_100, unpriced_1, priced_201, priced_200]. price x \<noteq> Some NaN"
    by (simp add: priced_100_def unpriced_1_def priced_201_def priced_200_def)
  have "filter (\<lambda>x. price x = None
          \<or> (\<exists>n. price x = Some n \<and> js_le (Fin 100) n \<and> js_le n (Fin 200)))
          [priced_100, unpriced_1, priced_201, priced_200]
        = [priced_100, unpriced_1, priced_200]"
    by (simp add: priced_100_def unpriced_1_def priced_201_def priced_200_def)
  then show ?thesis
    using h filtered_rule [OF h, of 100 200] by simp
qed

section \<open>Properties of the pagination\<close>

lemma totalPages_ge_1: "1 \<le> totalPages xs"
  by (simp add: totalPages_def)

lemma totalPages_eq: "totalPages xs = max 1 ((int (length xs) + 11) div 12)"
proof -
  define n where "n = int (length xs)"
  define d where "d = (n + 11) div 12"
  have a: "12 * d \<le> n + 11" unfolding d_def by simp
  have b: "n < 12 * d + 1"
    unfolding d_def
    using div_mult_mod_eq [of "n + 11" 12] pos_mod_bound [of 12 "n + 11"] by linarith
  have "\<lceil>(of_int n :: rat) / 12\<rceil> = d"
  proof (rule ceiling_unique)
    have "12 * d - 12 < n" using a by linarith
    then have "(of_int (12 * d - 12) :: rat) < of_int n" by (simp only: of_int_less_iff)
    then show "of_int d - 1 < (of_int n :: rat) / 12" by simp
    have "n \<le> 12 * d" using b by linarith
    then have "(of_int n :: rat) \<le> of_int (12 * d)" by (simp only: of_int_le_iff)
    then show "(of_int n :: rat) / 12 \<le> of_int d" by simp
  qed
  then show ?thesis by (simp add: totalPages_def PAGE_SIZE_def n_def d_def)
qed

lemma totalPages_covers: "int (length xs) \<le> 12 * totalPages xs"
proof -
  define n where "n = int (length xs)"
  have "n < 12 * ((n + 11) div 12) + 1"
    using div_mult_mod_eq [of "n + 11" 12] pos_mod_bound [of 12 "n + 11"] by linarith
  then have "n \<le> 12 * max 1 ((n + 11) div 12)" by linarith
  then show ?thesis by (simp add: totalPages_eq n_def)
qed

lemma slice_nonneg:
  assumes "0 \<le> s" and "0 \<le> e"
  shows "slice xs s e = take (nat e - nat s) (drop (nat s) xs)"
proof -
  define len where "len = int (length xs)"
  have sl: "slice xs s e = take (nat (min e len - min s len)) (drop (nat (min s len)) xs)"
    using assms by (simp add: slice_def Let_def len_def)
  show ?thesis
  proof (cases "s \<le> len")
    case True
    then have k: "min s len = s" by simp
    have l: "length (drop (nat s) xs) = nat (len - s)" using assms by (simp add: len_def)
    show ?thesis
    proof (cases "e \<le> len")
      case True
      then have "nat (min e len - s) = nat e - nat s" using assms by simp
      then show ?thesis by (simp add: sl k)
    next
      case False
      then have m: "min e len = len" by simp
      have "nat (len - s) \<le> nat e - nat s" using False assms by linarith
      then have "take (nat e - nat s) (drop (nat s) xs) = drop (nat s) xs"
        using l by simp
      moreover have "take (nat (len - s)) (drop (nat s) xs) = drop (nat s) xs"
        using l by simp
      ultimately show ?thesis by (simp add: sl k m)
    qed
  next
    case False
    then have k: "min s len = len" by simp
    have "length xs \<le> nat s" using False by (simp add: len_def)
    then have "drop (nat s) xs = []" by simp
    moreover have "drop (nat len) xs = []" by (simp add: len_def)
    ultimately show ?thesis by (simp add: sl k)
  qed
qed

lemma shown_page:
  assumes "1 \<le> pg"
  shows "shown xs pg = take 12 (drop (12 * nat (pg - 1)) xs)"
proof -
  have s: "nat ((pg - 1) * 12) = 12 * nat (pg - 1)"
    using assms by (simp add: nat_mult_distrib)
  have "nat (pg * 12) = 12 * nat (pg - 1) + 12" using assms by linarith
  then have e: "nat (pg * 12) - 12 * nat (pg - 1) = 12" by simp
  have "shown xs pg = take (nat (pg * 12) - nat ((pg - 1) * 12)) (drop (nat ((pg - 1) * 12)) xs)"
    unfolding shown_def PAGE_SIZE_def using assms by (intro slice_nonneg) simp_all
  then show ?thesis unfolding s e .
qed

lemma length_shown: "length (shown xs pg) \<le> 12"
proof (cases "1 \<le> pg")
  case True
  then show ?thesis by (simp add: shown_page)
next
  case False
  define len where "len = int (length xs)"
  define s where "s = (pg - 1) * 12"
  define k where "k = max (len + s) 0"
  define f where "f = (if s + 12 < 0 then max (len + (s + 12)) 0 else min (s + 12) len)"
  have neg: "s < 0" and e: "pg * 12 = s + 12" and e0: "s + 12 \<le> 0"
    using False by (simp_all add: s_def algebra_simps)
  have sl: "shown xs pg = take (nat (f - k)) (drop (nat k) xs)"
    unfolding shown_def PAGE_SIZE_def slice_def Let_def e
    using neg by (simp add: s_def k_def f_def len_def)
  have len0: "0 \<le> len" by (simp add: len_def)
  have "f - k \<le> 12"
    unfolding k_def f_def using len0 e0 by (simp add: max_def min_def)
  then have "nat (f - k) \<le> 12" by simp
  then show ?thesis unfolding sl by simp
qed

lemma concat_pages_upto:
  assumes "0 \<le> n"
  shows "concat (map (shown xs) [1..n]) = take (12 * nat n) xs"
  using assms
proof (induction n rule: int_ge_induct)
  case base
  show ?case by simp
next
  case (step i)
  have "[1..i + 1] = [1..i] @ [i + 1]" using step.hyps by (simp add: upto_rec2)
  then have "concat (map (shown xs) [1..i + 1]) = take (12 * nat i) xs @ shown xs (i + 1)"
    using step.IH by simp
  also have "shown xs (i + 1) = take 12 (drop (12 * nat i) xs)"
    using step.hyps by (simp add: shown_page)
  also have "take (12 * nat i) xs @ take 12 (drop (12 * nat i) xs) = take (12 * nat i + 12) xs"
    by (simp add: take_add)
  also have "12 * nat i + 12 = 12 * nat (i + 1)" using step.hyps by (simp add: nat_add_distrib)
  finally show ?case .
qed

lemma concat_pages: "concat (map (shown xs) [1..totalPages xs]) = xs"
proof -
  have "length xs \<le> 12 * nat (totalPages xs)"
    using totalPages_covers [of xs] by linarith
  moreover have "0 \<le> totalPages xs" using totalPages_ge_1 [of xs] by linarith
  ultimately show ?thesis by (simp add: concat_pages_upto)
qed

text \<open>
  C7 (amended). For every list, with \<open>totalPages = max(1, ceil(count / PAGE_SIZE))\<close>: the
  concatenation of the pages 1 to \<open>totalPages\<close> is the full list; the shown slice has at
  most \<open>PAGE_SIZE\<close> elements for every page number; Prev never yields a page below 1
  and Next never a page above \<open>totalPages\<close>, so from a page within
  \<open>[1, totalPages]\<close> both stay within it.
\<close>

theorem pagination_law:
  "concat (map (shown xs) [1..totalPages xs]) = xs
   \<and> length (shown xs pg) \<le> nat PAGE_SIZE
   \<and> 1 \<le> prev_page p
   \<and> next_page xs p \<le> totalPages xs
   \<and> (1 \<le> p \<and> p \<le> totalPages xs \<longrightarrow>
        1 \<le> prev_page p \<and> prev_page p \<le> totalPages xs
      \<and> 1 \<le> next_page xs p \<and> next_page xs p \<le> totalPages xs)"
  using concat_pages [of xs] length_shown [of xs pg] totalPages_ge_1 [of xs]
  by (simp add: prev_page_def next_page_def PAGE_SIZE_def)

theorem pagination_law_witness:
  "(1::int) \<le> 3 \<and> 3 \<le> totalPages (replicate 25 JNull)
   \<and> 1 \<le> prev_page 3 \<and> prev_page 3 \<le> totalPages (replicate 25 JNull)
   \<and> 1 \<le> next_page (replicate 25 JNull) 3
   \<and> next_page (replicate 25 JNull) 3 \<le> totalPages (replicate 25 JNull)
   \<and> concat (map (shown (replicate 25 JNull)) [1..totalPages (replicate 25 JNull)])
       = replicate 25 JNull
   \<and> length (shown (replicate 25 JNull) 3) \<le> nat PAGE_SIZE"
proof -
  have h: "(1::int) \<le> 3 \<and> 3 \<le> totalPages (replicate 25 JNull)"
    by (simp add: totalPages_eq)
  show ?thesis
    using h pagination_law [of "replicate 25 JNull" 3 3] by blast
qed

text \<open>
  Against C7 as stated, a run of the client that leaves \<open>[1, totalPages]\<close>: 25
  products are loaded, Next is pressed twice (page 3 of 3), the next request fails,
  which empties the list and keeps the page (page 3 of 1), and Prev then yields page 2
  of 1.
\<close>

theorem page_above_totalPages_counterexample:
  "page (run initial_state
          [RecommendStart, RecommendFinish initial_state (\<lambda>k. 0) page_of_25, Next, Next]) = 3
   \<and> totalPages (products (run initial_state
          [RecommendStart, RecommendFinish initial_state (\<lambda>k. 0) page_of_25, Next, Next])) = 3
   \<and> page (run initial_state
          [RecommendStart, RecommendFinish initial_state (\<lambda>k. 0) page_of_25, Next, Next,
           RecommendStart, RecommendFinish initial_state (\<lambda>k. 0) failed_to_fetch]) = 3
   \<and> totalPages (products (run initial_state
          [RecommendStart, RecommendFinish initial_state (\<lambda>k. 0) page_of_25, Next, Next,
           RecommendStart, RecommendFinish initial_state (\<lambda>k. 0) failed_to_fetch])) = 1
   \<and> page (run initial_state
          [RecommendStart, RecommendFinish initial_state (\<lambda>k. 0) page_of_25, Next, Next,
           RecommendStart, RecommendFinish initial_state (\<lambda>k. 0) failed_to_fetch, Prev]) = 2
   \<and> totalPages (products (run initial_state
          [RecommendStart, RecommendFinish initial_state (\<lambda>k. 0) page_of_25, Next, Next,
           RecommendStart, RecommendFinish initial_state (\<lambda>k. 0) failed_to_fetch, Prev])) = 1"
  by code_simp

section \<open>Properties of the Query Orchestrator\<close>

lemma recommend_try_cases:
  "recommend_try cap rnd (Rejected e) = Inl e"
  "\<not> ok res \<Longrightarrow> recommend_try cap rnd (Resolved res) = Inl (bad_response res)"
  "ok res \<Longrightarrow> json_result res = None \<Longrightarrow>
     recommend_try cap rnd (Resolved res) = Inl (Error ''Invalid JSON returned from /api/recommend'')"
  "ok res \<Longrightarrow> json_result res = Some j \<Longrightarrow> normalized rnd j = Inl e \<Longrightarrow>
     recommend_try cap rnd (Resolved res) = Inl e"
  "ok res \<Longrightarrow> json_result res = Some j \<Longrightarrow> normalized rnd j = Inr xs \<Longrightarrow>
     recommend_try cap rnd (Resolved res) = Inr (sorted_by (sortBy cap) (filtered (priceRange cap) xs))"
  by (simp_all add: recommend_try_def)

lemma finish_success:
  assumes "recommend_try cap rnd out = Inr xs"
  shows "fst (fetchRecommendations_finish cap rnd out st) = st\<lparr>products := xs, page := 1, loading := False\<rparr>"
  using assms by (simp add: fetchRecommendations_finish_def)

lemma finish_failure:
  assumes "recommend_try cap rnd out = Inl e"
  shows "fst (fetchRecommendations_finish cap rnd out st) =
           st\<lparr>error := Some (if message e \<noteq> '''' then message e
                                else ''Failed to load recommendations''),
               products := [], loading := False\<rparr>"
  using assms by (simp add: fetchRecommendations_finish_def)

lemma finish_no_request: "\<not> list_ex is_request (snd (fetchRecommendations_finish cap rnd out st))"
  by (cases "recommend_try cap rnd out")
     (simp_all add: fetchRecommendations_finish_def is_request_def)

text \<open>
  C8. Every invocation of the orchestrator sets \<open>loading\<close> and clears \<open>error\<close> at its
  start and issues one request; its completion clears \<open>loading\<close> whatever the outcome
  and issues no further request; on success it stores the filtered and sorted products
  and resets \<open>page\<close> to 1; on every failure (an exception before the response, a
  response that is not ok, a body that is not JSON, an exception of the normalizer) it
  sets one non-empty error string and clears the product list.
\<close>

theorem fetchRecommendations_lifecycle:
  "loading (fst (fetchRecommendations_start st))
   \<and> error (fst (fetchRecommendations_start st)) = None
   \<and> filter is_request (snd (fetchRecommendations_start st)) = [Request ''GET'' ''/api/recommend'']
   \<and> \<not> loading (fst (fetchRecommendations_finish cap rnd out st'))
   \<and> \<not> list_ex is_request (snd (fetchRecommendations_finish cap rnd out st'))
   \<and> (\<forall>xs. recommend_try cap rnd out = Inr xs \<longrightarrow>
          products (fst (fetchRecommendations_finish cap rnd out st')) = xs
        \<and> page (fst (fetchRecommendations_finish cap rnd out st')) = 1)
   \<and> (\<forall>e. recommend_try cap rnd out = Inl e \<longrightarrow>
          (\<exists>m. error (fst (fetchRecommendations_finish cap rnd out st')) = Some m \<and> m \<noteq> '''')
        \<and> products (fst (fetchRecommendations_finish cap rnd out st')) = [])
   \<and> (\<forall>res j xs. out = Resolved res \<and> ok res \<and> json_result res = Some j
          \<and> normalized rnd j = Inr xs \<longrightarrow>
          recommend_try cap rnd out = Inr (sorted_by (sortBy cap) (filtered (priceRange cap) xs)))
   \<and> (\<forall>e. out = Rejected e \<longrightarrow> recommend_try cap rnd out = Inl e)
   \<and> (\<forall>res. out = Resolved res \<and> \<not> ok res \<longrightarrow> (\<exists>e. recommend_try cap rnd out = Inl e))
   \<and> (\<forall>res. out = Resolved res \<and> ok res \<and> json_result res = None \<longrightarrow>
          (\<exists>e. recommend_try cap rnd out = Inl e))"
proof -
  let ?fin = "fetchRecommendations_finish cap rnd out st'"
  have 1: "loading (fst (fetchRecommendations_start st))"
    and 2: "error (fst (fetchRecommendations_start st)) = None"
    and 3: "filter is_request (snd (fetchRecommendations_start st)) = [Request ''GET'' ''/api/recommend'']"
    by (simp_all add: fetchRecommendations_start_def is_request_def)
  have 4: "\<not> loading (fst ?fin)"
    by (cases "recommend_try cap rnd out") (simp_all add: finish_success finish_failure)
  have 5: "\<not> list_ex is_request (snd ?fin)"
    by (rule finish_no_request)
  have 6: "\<forall>xs. recommend_try cap rnd out = Inr xs \<longrightarrow>
          products (fst ?fin) = xs \<and> page (fst ?fin) = 1"
    by (simp add: finish_success)
  have 7: "\<forall>e. recommend_try cap rnd out = Inl e \<longrightarrow>
          (\<exists>m. error (fst ?fin) = Some m \<and> m \<noteq> '''') \<and> products (fst ?fin) = []"
    by (simp add: finish_failure)
  have 8: "\<forall>res j xs. out = Resolved res \<and> ok res \<and> json_result res = Some j
          \<and> normalized rnd j = Inr xs \<longrightarrow>
          recommend_try cap rnd out = Inr (sorted_by (sortBy cap) (filtered (priceRange cap) xs))"
    by (simp add: recommend_try_def)
  have 9: "\<forall>e. out = Rejected e \<longrightarrow> recommend_try cap rnd out = Inl e"
    by (simp add: recommend_try_def)
  have 10: "\<forall>res. out = Resolved res \<and> \<not> ok res \<longrightarrow> (\<exists>e. recommend_try cap rnd out = Inl e)"
    by (simp add: recommend_try_def)
  have 11: "\<forall>res. out = Resolved res \<and> ok res \<and> json_result res = None \<longrightarrow>
          (\<exists>e. recommend_try cap rnd out = Inl e)"
    by (simp add: recommend_try_def)
  from 1 2 3 4 5 6 7 8 9 10 11 show ?thesis by (intro conjI)
qed

theorem fetchRecommendations_lifecycle_witness:
  "recommend_try initial_state (\<lambda>k. 0) failed_to_fetch = Inl (TypeError ''Failed to fetch'')
   \<and> (\<exists>m. error (fst (fetchRecommendations_finish initial_state (\<lambda>k. 0) failed_to_fetch
                   (initial_state\<lparr>loading := True\<rparr>))) = Some m \<and> m \<noteq> '''')
   \<and> products (fst (fetchRecommendations_finish initial_state (\<lambda>k. 0) failed_to_fetch
                   (initial_state\<lparr>loading := True\<rparr>))) = []
   \<and> \<not> loading (fst (fetchRecommendations_finish initial_state (\<lambda>k. 0) failed_to_fetch
                   (initial_state\<lparr>loading := True\<rparr>)))
   \<and> recommend_try initial_state (\<lambda>k. 0)
        (Resolved \<lparr>ok = True, status = 200, text_result = None, json_result = Some (JArr [])\<rparr>)
      = Inr []
   \<and> page (fst (fetchRecommendations_finish initial_state (\<lambda>k. 0)
        (Resolved \<lparr>ok = True, status = 200, text_result = None, json_result = Some (JArr [])\<rparr>)
        (initial_state\<lparr>loading := True, page := 3\<rparr>))) = 1"
proof -
  let ?st = "initial_state\<lparr>loading := True\<rparr>"
  let ?fin = "fetchRecommendations_finish initial_state (\<lambda>k. 0) failed_to_fetch ?st"
  have a: "recommend_try initial_state (\<lambda>k. 0) failed_to_fetch = Inl (TypeError ''Failed to fetch'')"
    by (simp add: recommend_try_def failed_to_fetch_def)
  note f = fetchRecommendations_lifecycle
    [of initial_state initial_state "\<lambda>k. 0" failed_to_fetch ?st]
  from f have f4: "\<not> loading (fst ?fin)" by (elim conjE)
  from f have f7: "\<forall>e. recommend_try initial_state (\<lambda>k. 0) failed_to_fetch = Inl e \<longrightarrow>
          (\<exists>m. error (fst ?fin) = Some m \<and> m \<noteq> '''') \<and> products (fst ?fin) = []"
    by (elim conjE)
  have r: "(\<exists>m. error (fst ?fin) = Some m \<and> m \<noteq> []) \<and> products (fst ?fin) = []"
    by (rule f7 [rule_format, OF a])
  let ?ok = "Resolved \<lparr>ok = True, status = 200, text_result = None, json_result = Some (JArr [])\<rparr>"
  let ?st' = "initial_state\<lparr>loading := True, page := 3\<rparr>"
  let ?fin' = "fetchRecommendations_finish initial_state (\<lambda>k. 0) ?ok ?st'"
  have b: "recommend_try initial_state (\<lambda>k. 0) ?ok = Inr []"
    by code_simp
  note g = fetchRecommendations_lifecycle [of initial_state initial_state "\<lambda>k. 0" ?ok ?st']
  from g have g6: "\<forall>xs. recommend_try initial_state (\<lambda>k. 0) ?ok = Inr xs \<longrightarrow>
          products (fst ?fin') = xs \<and> page (fst ?fin') = 1"
    by (elim conjE)
  have r': "products (fst ?fin') = [] \<and> page (fst ?fin') = 1"
    by (rule g6 [rule_format, OF b])
  show ?thesis
    using a r f4 b r' by (elim conjE) (intro conjI; assumption)
qed

section \<open>Properties of the trust lookup and of the bundle request\<close>

text \<open>
  C9 (amended). The completion of a trust lookup makes no comparison with the active
  TrustState: it sets TrustState to its own asin, \<open>loading = false\<close> and its own result,
  whatever TrustState holds at that moment. The asin and the data of TrustState thus
  always belong to the same lookup, and the completion that arrives last wins, also when
  its lookup was superseded.
\<close>

theorem handleTrust_finish_overwrites:
  "trustFor (fst (handleTrust_start a st))
     = Some \<lparr>trust_asin = a, trust_loading = True, trust_data = JNull\<rparr>
   \<and> trustFor (fst (handleTrust_finish a out st))
     = Some \<lparr>trust_asin = a, trust_loading = False,
             trust_data = (case trust_try out of
                             Inr j \<Rightarrow> j
                           | Inl e \<Rightarrow> JObj [(''error'', JStr (message e))])\<rparr>
   \<and> handleTrust_finish a out (st\<lparr>trustFor := t\<rparr>) = handleTrust_finish a out st"
  by (cases "trust_try out") (simp_all add: handleTrust_start_def handleTrust_finish_def)

text \<open>
  Against C9 as stated: the lookup for A1 is superseded by the lookup for A2, A2
  completes, and the late completion of A1 puts the data of A1 back into TrustState.
\<close>

theorem superseded_trust_counterexample:
  "trustFor (run initial_state
       [TrustStart (JStr ''A1''), TrustStart (JStr ''A2''),
        TrustFinish (JStr ''A2'') (trust_response 2)])
     = Some \<lparr>trust_asin = JStr ''A2'', trust_loading = False,
             trust_data = JObj [(''trust_score'', JNum (Fin 2))]\<rparr>
   \<and> trustFor (run initial_state
       [TrustStart (JStr ''A1''), TrustStart (JStr ''A2''),
        TrustFinish (JStr ''A2'') (trust_response 2),
        TrustFinish (JStr ''A1'') (trust_response 1)])
     = Some \<lparr>trust_asin = JStr ''A1'', trust_loading = False,
             trust_data = JObj [(''trust_score'', JNum (Fin 1))]\<rparr>"
  by code_simp

lemma bundle_effects:
  "\<exists>m rest. snd (handleGenerateBundle nts out st)
       = SendLog ''info'' ''bundle:request'' # Request ''POST'' ''/api/generate_bundle''
         # rest @ [Alert m]
     \<and> list_all is_log rest"
  by (cases "bundle_try nts out") (simp_all add: handleGenerateBundle_def is_log_def)

text \<open>
  C10. The bundle workflow leaves the whole state unchanged (products, page, loading,
  error, priceRange, sortBy, prompt, trustFor) under every outcome; besides its request
  it only emits log events and, last, one notification of the user.
\<close>

theorem handleGenerateBundle_frame:
  "fst (handleGenerateBundle nts out st) = st
   \<and> step st (GenerateBundle nts out) = st
   \<and> (\<exists>m rest. snd (handleGenerateBundle nts out st)
          = SendLog ''info'' ''bundle:request'' # Request ''POST'' ''/api/generate_bundle''
            # rest @ [Alert m]
        \<and> list_all is_log rest)"
  using bundle_effects [of nts out st]
  by (simp add: handleGenerateBundle_def step_def)

lemma bundle_rate_limited:
  "bundle_try nts (Resolved \<lparr>ok = False, status = 429,
       text_result = Some ''{detail:rate limited}'',
       json_result = Some (JObj [(''detail'', JStr ''rate limited'')])\<rparr>)
   = Inl (Error ''rate limited'')"
  by (simp add: bundle_try_def bundle_failure_def text_or_empty_def coalesce_def get_def
      ToString_def)

lemma trust_server_down:
  "trustFor (fst (handleTrust_finish (JStr ''A1'')
       (Resolved \<lparr>ok = False, status = 500, text_result = Some ''server down'',
                  json_result = None\<rparr>) st))
   = Some \<lparr>trust_asin = JStr ''A1'', trust_loading = False,
           trust_data = JObj [(''error'', JStr ''server down'')]\<rparr>"
  by (simp add: handleTrust_finish_def trust_try_def bad_response_def text_or_empty_def)

section \<open>Properties of the sort\<close>


lemma set_sift: "set (sift comparefn item acc) = insert item (set acc)"
  by (induction acc) auto


lemma foldl_sift_set:
  "set (foldl (\<lambda>acc item. sift comparefn item acc) acc xs) = set xs \<union> set acc"
  by (induction xs arbitrary: acc) (auto simp: set_sift)




lemma Array_sort_set: "set (Array_sort comparefn xs) = set xs"
  by (simp add: Array_sort_def foldl_sift_set)




lemma unpriced_compare_both_ways:
  "compare_by ''price'' unpriced_1 unpriced_2 = Fin 1
   \<and> compare_by ''price'' unpriced_2 unpriced_1 = Fin 1"
  by (simp add: compare_by_def unpriced_1_def unpriced_2_def)

lemma sorted_by_price_example:
  "sorted_by ''price'' [unpriced_1, priced_201, unpriced_2, priced_100, priced_200]
     = [priced_100, priced_200, priced_201, unpriced_1, unpriced_2]
   \<and> sorted_by ''price'' [unpriced_1, unpriced_2] = [unpriced_1, unpriced_2]
   \<and> sorted_by ''score'' [priced_100, unpriced_1, priced_201, priced_200, unpriced_2]
     = [priced_201, priced_200, unpriced_1, unpriced_2, priced_100]
   \<and> sorted_by ''reviews'' [priced_201, unpriced_1, priced_100, priced_200, unpriced_2]
     = [priced_100, unpriced_1, unpriced_2, priced_201, priced_200]"
  by code_simp

lemma sift_sorted:
  assumes tot: "\<And>x. x \<in> set acc \<Longrightarrow> negative (comparefn item x) \<Longrightarrow> \<not> negative (comparefn x item)"
    and trans: "\<And>x y. x \<in> set acc \<Longrightarrow> y \<in> set acc \<Longrightarrow> \<not> negative (comparefn item x) \<Longrightarrow>
                  \<not> negative (comparefn x y) \<Longrightarrow> \<not> negative (comparefn item y)"
    and sorted: "sorted_wrt (\<lambda>a b. \<not> negative (comparefn a b)) acc"
  shows "sorted_wrt (\<lambda>a b. \<not> negative (comparefn a b)) (sift comparefn item acc)"
  using assms
proof (induction acc)
  case Nil
  show ?case by simp
next
  case (Cons x xs)
  show ?case
  proof (cases "negative (comparefn item x)")
    case True
    have "sorted_wrt (\<lambda>a b. \<not> negative (comparefn a b)) (sift comparefn item xs)"
      using Cons.prems by (intro Cons.IH) auto
    moreover have "\<forall>y \<in> set (sift comparefn item xs). \<not> negative (comparefn x y)"
      using Cons.prems(1) [of x] Cons.prems(3) True by (auto simp: set_sift)
    ultimately show ?thesis using True by simp
  next
    case False
    have "\<forall>y \<in> set (x # xs). \<not> negative (comparefn item y)"
    proof
      fix y assume y: "y \<in> set (x # xs)"
      show "\<not> negative (comparefn item y)"
      proof (cases "y = x")
        case True
        then show ?thesis using False by simp
      next
        case ne: False
        then have "y \<in> set xs" using y by simp
        then have "\<not> negative (comparefn x y)" using Cons.prems(3) by simp
        then show ?thesis using Cons.prems(2) [of x y] y False by simp
      qed
    qed
    then show ?thesis using False Cons.prems(3) by simp
  qed
qed

lemma foldl_sift_sorted:
  assumes sub: "set xs \<union> set acc \<subseteq> A"
    and tot: "\<And>x y. x \<in> A \<Longrightarrow> y \<in> A \<Longrightarrow> negative (comparefn x y) \<Longrightarrow> \<not> negative (comparefn y x)"
    and trans: "\<And>x y z. x \<in> A \<Longrightarrow> y \<in> A \<Longrightarrow> z \<in> A \<Longrightarrow> \<not> negative (comparefn x y) \<Longrightarrow>
                  \<not> negative (comparefn y z) \<Longrightarrow> \<not> negative (comparefn x z)"
    and sorted: "sorted_wrt (\<lambda>a b. \<not> negative (comparefn a b)) acc"
  shows "sorted_wrt (\<lambda>a b. \<not> negative (comparefn a b))
           (foldl (\<lambda>acc item. sift comparefn item acc) acc xs)"
  using sub sorted
proof (induction xs arbitrary: acc)
  case Nil
  then show ?case by simp
next
  case (Cons item xs)
  have item: "item \<in> A" and acc: "set acc \<subseteq> A" and xs: "set xs \<subseteq> A"
    using Cons.prems(1) by simp_all
  have s: "sorted_wrt (\<lambda>a b. \<not> negative (comparefn a b)) (sift comparefn item acc)"
  proof (rule sift_sorted)
    show "sorted_wrt (\<lambda>a b. \<not> negative (comparefn a b)) acc" by (rule Cons.prems(2))
  next
    fix x assume "x \<in> set acc" "negative (comparefn item x)"
    then show "\<not> negative (comparefn x item)" using tot [of item x] item acc by blast
  next
    fix x y assume "x \<in> set acc" "y \<in> set acc" "\<not> negative (comparefn item x)"
      "\<not> negative (comparefn x y)"
    then show "\<not> negative (comparefn item y)" using trans [of item x y] item acc by blast
  qed
  have "set xs \<union> set (sift comparefn item acc) \<subseteq> A"
    using item acc xs by (simp add: set_sift)
  then have "sorted_wrt (\<lambda>a b. \<not> negative (comparefn a b))
          (foldl (\<lambda>acc item. sift comparefn item acc) (sift comparefn item acc) xs)"
    using s by (rule Cons.IH)
  then show ?case by simp
qed

text \<open>
  Where the test \<^verbatim>\<open>comparefn(b, a) < 0\<close> is asymmetric on the elements and its negation
  transitive, no element of the result gets a negative answer against an earlier one.
\<close>

lemma Array_sort_sorted:
  assumes "\<And>x y. x \<in> set xs \<Longrightarrow> y \<in> set xs \<Longrightarrow>
             negative (comparefn x y) \<Longrightarrow> \<not> negative (comparefn y x)"
    and "\<And>x y z. x \<in> set xs \<Longrightarrow> y \<in> set xs \<Longrightarrow> z \<in> set xs \<Longrightarrow>
             \<not> negative (comparefn x y) \<Longrightarrow> \<not> negative (comparefn y z) \<Longrightarrow>
             \<not> negative (comparefn x z)"
  shows "sorted_wrt (\<lambda>a b. \<not> negative (comparefn b a)) (Array_sort comparefn xs)"
proof -
  have "sorted_wrt (\<lambda>a b. \<not> negative (comparefn a b))
          (foldl (\<lambda>acc item. sift comparefn item acc) [] xs)"
  proof (rule foldl_sift_sorted [where A = "set xs"])
    show "set xs \<union> set [] \<subseteq> set xs" by simp
    show "sorted_wrt (\<lambda>a b. \<not> negative (comparefn a b)) []" by simp
  qed (use assms in blast)+
  then show ?thesis
    by (simp add: Array_sort_def sorted_wrt_rev)
qed

lemma negative_js_sub:
  assumes "a \<noteq> NaN" and "b \<noteq> NaN"
  shows "negative (js_sub a b) \<longleftrightarrow> \<not> js_le b a"
  using assms by (cases a; cases b) (auto simp: negative_def)

lemma js_le_total: "a \<noteq> NaN \<Longrightarrow> b \<noteq> NaN \<Longrightarrow> js_le a b \<or> js_le b a"
  by (cases a; cases b) auto

lemma js_le_trans: "js_le a b \<Longrightarrow> js_le b c \<Longrightarrow> js_le a c"
  by (cases a; cases b; cases c) auto

lemma sorted_wrt_members:
  "sorted_wrt P xs \<Longrightarrow> sorted_wrt (\<lambda>a b. a \<in> set xs \<and> b \<in> set xs \<and> P a b) xs"
  by (auto simp: sorted_wrt_iff_nth_less)

lemma sorted_by_score_sorted:
  assumes "k \<noteq> ''price''" and "k \<noteq> ''reviews''" and "\<forall>x \<in> set xs. score x \<noteq> NaN"
  shows "sorted_wrt (\<lambda>a b. js_le (score b) (score a)) (sorted_by k xs)"
proof -
  have c: "compare_by k a b = js_sub (score b) (score a)" for a b
    using assms(1,2) by (simp add: compare_by_def)
  have p: "negative (compare_by k a b) \<longleftrightarrow> \<not> js_le (score a) (score b)"
    if "a \<in> set xs" "b \<in> set xs" for a b
    using that assms(3) by (simp add: c negative_js_sub)
  have "sorted_wrt (\<lambda>a b. \<not> negative (compare_by k b a)) (Array_sort (compare_by k) xs)"
  proof (rule Array_sort_sorted)
    fix x y assume x: "x \<in> set xs" and y: "y \<in> set xs" and "negative (compare_by k x y)"
    then have "\<not> js_le (score x) (score y)" by (simp add: p)
    moreover have "js_le (score x) (score y) \<or> js_le (score y) (score x)"
      using x y assms(3) by (intro js_le_total) auto
    ultimately show "\<not> negative (compare_by k y x)" using x y by (simp add: p)
  next
    fix x y z
    assume x: "x \<in> set xs" and y: "y \<in> set xs" and z: "z \<in> set xs"
      and "\<not> negative (compare_by k x y)" "\<not> negative (compare_by k y z)"
    then have "js_le (score x) (score y)" "js_le (score y) (score z)" by (simp_all add: p)
    then have "js_le (score x) (score z)" using js_le_trans by blast
    then show "\<not> negative (compare_by k x z)" using x z by (simp add: p)
  qed
  then have "sorted_wrt (\<lambda>a b. a \<in> set (Array_sort (compare_by k) xs)
        \<and> b \<in> set (Array_sort (compare_by k) xs) \<and> \<not> negative (compare_by k b a))
      (Array_sort (compare_by k) xs)"
    by (rule sorted_wrt_members)
  then have "sorted_wrt (\<lambda>a b. js_le (score b) (score a)) (Array_sort (compare_by k) xs)"
  proof (rule sorted_wrt_mono_rel [rotated])
    fix a b
    assume "a \<in> set (Array_sort (compare_by k) xs)" "b \<in> set (Array_sort (compare_by k) xs)"
      "a \<in> set (Array_sort (compare_by k) xs) \<and> b \<in> set (Array_sort (compare_by k) xs)
         \<and> \<not> negative (compare_by k b a)"
    then show "js_le (score b) (score a)" by (simp add: Array_sort_set p)
  qed
  then show ?thesis by (simp add: sorted_by_def)
qed

lemma negative_price_compare:
  assumes "price a \<noteq> Some NaN" and "price b \<noteq> Some NaN"
  shows "\<not> negative (compare_by ''price'' b a) \<longleftrightarrow> price_ordered a b"
proof (cases "price a")
  case None
  then show ?thesis
    by (cases "price b") (simp_all add: compare_by_def price_ordered_def negative_def)
next
  case (Some pa)
  then show ?thesis
  proof (cases "price b")
    case None
    then show ?thesis using Some by (simp add: compare_by_def price_ordered_def negative_def)
  next
    case (Some pb)
    then show ?thesis
      using \<open>price a = Some pa\<close> assms negative_js_sub [of pb pa]
      by (simp add: compare_by_def price_ordered_def)
  qed
qed

lemma price_ordered_total:
  assumes "price a \<noteq> Some NaN" and "price b \<noteq> Some NaN"
  shows "price_ordered a b \<or> price_ordered b a"
proof (cases "price a")
  case None
  then show ?thesis by (cases "price b") (simp_all add: price_ordered_def)
next
  case (Some pa)
  then show ?thesis
  proof (cases "price b")
    case None
    then show ?thesis using Some by (simp add: price_ordered_def)
  next
    case (Some pb)
    then show ?thesis
      using \<open>price a = Some pa\<close> assms js_le_total [of pa pb] by (simp add: price_ordered_def)
  qed
qed

lemma price_ordered_trans:
  assumes "price_ordered a b" and "price_ordered b c"
  shows "price_ordered a c"
proof (cases "price a")
  case None
  then show ?thesis using assms by (simp add: price_ordered_def)
next
  case a: (Some pa)
  show ?thesis
  proof (cases "price c")
    case None
    then show ?thesis using a by (simp add: price_ordered_def)
  next
    case c: (Some pc)
    show ?thesis
    proof (cases "price b")
      case None
      then show ?thesis using assms(2) c by (simp add: price_ordered_def)
    next
      case (Some pb)
      then have "js_le pa pb" "js_le pb pc" using assms a c by (simp_all add: price_ordered_def)
      then have "js_le pa pc" by (rule js_le_trans)
      then show ?thesis using a c by (simp add: price_ordered_def)
    qed
  qed
qed

text \<open>
  Under \<^verbatim>\<open>"price"\<close> the result has the known prices in ascending order and every
  Product without price after them.
\<close>

lemma sorted_by_price_sorted:
  assumes "\<forall>x \<in> set xs. price x \<noteq> Some NaN"
  shows "sorted_wrt price_ordered (sorted_by ''price'' xs)"
proof -
  have q: "\<not> negative (compare_by ''price'' b a) \<longleftrightarrow> price_ordered a b"
    if "a \<in> set xs" "b \<in> set xs" for a b
    using that assms by (intro negative_price_compare) auto
  have "sorted_wrt (\<lambda>a b. \<not> negative (compare_by ''price'' b a))
          (Array_sort (compare_by ''price'') xs)"
  proof (rule Array_sort_sorted)
    fix x y assume x: "x \<in> set xs" and y: "y \<in> set xs"
      and n: "negative (compare_by ''price'' x y)"
    have "\<not> price_ordered y x" using q [OF y x] n by blast
    moreover have "price_ordered y x \<or> price_ordered x y"
      using x y assms by (intro price_ordered_total) auto
    ultimately have "price_ordered x y" by blast
    then show "\<not> negative (compare_by ''price'' y x)" using q [OF x y] by blast
  next
    fix x y z
    assume x: "x \<in> set xs" and y: "y \<in> set xs" and z: "z \<in> set xs"
      and 1: "\<not> negative (compare_by ''price'' x y)"
      and 2: "\<not> negative (compare_by ''price'' y z)"
    have "price_ordered y x" using q [OF y x] 1 by blast
    moreover have "price_ordered z y" using q [OF z y] 2 by blast
    ultimately have "price_ordered z x" using price_ordered_trans by blast
    then show "\<not> negative (compare_by ''price'' x z)" using q [OF z x] by blast
  qed
  then have "sorted_wrt (\<lambda>a b. a \<in> set (Array_sort (compare_by ''price'') xs)
        \<and> b \<in> set (Array_sort (compare_by ''price'') xs)
        \<and> \<not> negative (compare_by ''price'' b a))
      (Array_sort (compare_by ''price'') xs)"
    by (rule sorted_wrt_members)
  then have "sorted_wrt price_ordered (Array_sort (compare_by ''price'') xs)"
  proof (rule sorted_wrt_mono_rel [rotated])
    fix a b
    assume a: "a \<in> set (Array_sort (compare_by ''price'') xs)"
      and b: "b \<in> set (Array_sort (compare_by ''price'') xs)"
      and r: "a \<in> set (Array_sort (compare_by ''price'') xs)
         \<and> b \<in> set (Array_sort (compare_by ''price'') xs)
         \<and> \<not> negative (compare_by ''price'' b a)"
    have "a \<in> set xs" "b \<in> set xs" using a b by (simp_all add: Array_sort_set)
    then show "price_ordered a b" using q [of a b] r by blast
  qed
  then show ?thesis by (simp add: sorted_by_def)
qed



end
